theory Spec2Isabelle
  imports Complex_Main
begin

section \<open>Python values, exceptions and decimal strings\<close>

text \<open>
  The module \<open>httpie/downloads.py\<close> is embedded function by function. Exceptions are
  values: every function that can raise returns \<open>exn + 'a\<close>, with \<open>Inl\<close> the exception.
  A string is a Python 3 \<open>str\<close> whose characters are the code points below 256, one \<open>char\<close>
  each: that is what a header value is, decoded as Latin-1. Among them \<open>\d\<close> is \<open>[0-9]\<close>,
  and \<open>\s\<close> is the six ASCII white-space characters, the four separators \<open>0x1C\<close> to
  \<open>0x1F\<close>, the next-line character \<open>0x85\<close> and the no-break space \<open>0xA0\<close>. Python's
  unbounded integers are \<open>int\<close>; its floats (the readings of \<open>time()\<close> and the quotients
  of true division) are idealised as rationals, and every integer converts to one: the
  properties below are about which quantities are computed and which exceptions are
  raised on numbers a float holds, not about rounding or overflow.
\<close>

datatype content_range_problem = Invalid_format | Invalid_returned | Unexpected_returned

datatype exn =
    ContentRangeError content_range_problem
  | AssertionError
  | TypeError
  | ZeroDivisionError
  | AttributeError
  | OSError
  | OverflowError
  | IndexError
  | ValueError

datatype pynum = PInt int | PFloat rat

definition is_digit :: "char \<Rightarrow> bool" where
  "is_digit c = (c \<in> set ''0123456789'')"

definition digit_val :: "char \<Rightarrow> int" where
  "digit_val c = int (of_char c) - 48"

text \<open>\<open>int(s)\<close> on a non-empty string of decimal digits.\<close>

definition int_of_digits :: "string \<Rightarrow> int" where
  "int_of_digits s = foldl (\<lambda>a c. 10 * a + digit_val c) 0 s"

definition digit_char :: "nat \<Rightarrow> char" where
  "digit_char d = ''0123456789'' ! d"

text \<open>\<open>str(n)\<close> and \<open>'%d' % n\<close> on a non-negative integer, then on any integer.\<close>

function str_nat :: "nat \<Rightarrow> string" where
  "str_nat n = (if n < 10 then [digit_char n] else str_nat (n div 10) @ [digit_char (n mod 10)])"
  by pat_completeness auto
termination
  by (relation "measure id") auto

declare str_nat.simps [simp del]

definition str_int :: "int \<Rightarrow> string" where
  "str_int n = (if n < 0 then ''-'' @ str_nat (nat (- n)) else str_nat (nat n))"

section \<open>The Content-Range parser\<close>

text \<open>
  \<open>re.match('^bytes (?P<first_byte_pos>\d+)-(?P<last_byte_pos>\d+)/(\*|(?P<instance_length>\d+))$', s)\<close>.
  A greedy \<open>\d+\<close> followed by a character that is not a digit can only match the whole run
  of digits, so each group is the maximal run. Without \<open>re.MULTILINE\<close>, \<open>$\<close> matches at the
  end of the string and just before a newline that ends the string.
\<close>

fun strip_prefix :: "string \<Rightarrow> string \<Rightarrow> string option" where
  "strip_prefix [] s = Some s"
| "strip_prefix (p # ps) [] = None"
| "strip_prefix (p # ps) (c # cs) = (if p = c then strip_prefix ps cs else None)"

definition at_dollar :: "string \<Rightarrow> bool" where
  "at_dollar s = (s = [] \<or> s = [CHR 0x0A])"

definition match_instance :: "string \<Rightarrow> string option option" where
  "match_instance s =
     (case s of
        [] \<Rightarrow> None
      | c # cs \<Rightarrow>
          if c = CHR ''*'' \<and> at_dollar cs then Some None
          else if takeWhile is_digit s \<noteq> [] \<and> at_dollar (dropWhile is_digit s)
               then Some (Some (takeWhile is_digit s))
          else None)"

definition match_last :: "string \<Rightarrow> (string \<times> string option) option" where
  "match_last s =
     (if takeWhile is_digit s = [] then None
      else case dropWhile is_digit s of
             [] \<Rightarrow> None
           | c # cs \<Rightarrow>
               if c = CHR ''/'' then
                 (case match_instance cs of
                    None \<Rightarrow> None
                  | Some inst \<Rightarrow> Some (takeWhile is_digit s, inst))
               else None)"

definition match_content_range :: "string \<Rightarrow> (string \<times> string \<times> string option) option" where
  "match_content_range s =
     (case strip_prefix ''bytes '' s of
        None \<Rightarrow> None
      | Some t \<Rightarrow>
          if takeWhile is_digit t = [] then None
          else case dropWhile is_digit t of
                 [] \<Rightarrow> None
               | c # cs \<Rightarrow>
                   if c = CHR ''-'' then
                     (case match_last cs of
                        None \<Rightarrow> None
                      | Some (l, inst) \<Rightarrow> Some (takeWhile is_digit t, l, inst))
                   else None)"

text \<open>
  \<open>parse_content_range(content_range, resumed_from)\<close>: the three \<open>raise\<close> statements in
  the source's order, then \<open>return last_byte_pos + 1\<close>.
\<close>

definition parse_content_range :: "string \<Rightarrow> int \<Rightarrow> exn + int" where
  "parse_content_range content_range resumed_from =
     (case match_content_range content_range of
        None \<Rightarrow> Inl (ContentRangeError Invalid_format)
      | Some (f, l, inst) \<Rightarrow>
          let first_byte_pos = int_of_digits f;
              last_byte_pos = int_of_digits l;
              instance_length = map_option int_of_digits inst
          in if first_byte_pos \<ge> last_byte_pos
                \<or> (case instance_length of None \<Rightarrow> False | Some n \<Rightarrow> n \<le> last_byte_pos)
             then Inl (ContentRangeError Invalid_returned)
             else if first_byte_pos \<noteq> resumed_from
                \<or> (case instance_length of None \<Rightarrow> False | Some n \<Rightarrow> last_byte_pos + 1 \<noteq> n)
             then Inl (ContentRangeError Unexpected_returned)
             else Inr (last_byte_pos + 1))"

section \<open>Progress\<close>

text \<open>
  \<open>humanize_bytes\<close> (from \<open>httpie.utils\<close>), \<open>str(timedelta(seconds=n))\<close> and the
  float format specifications of \<open>str.format\<close> are not part of this module: they are
  parameters. \<open>humanize_bytes\<close> is taken to return a string for every number; what it
  does on \<open>None\<close> (\<open>sum_up\<close> passes an unknown total size to it) is a parameter of its
  own. So are the builtin \<open>int\<close> on a string (\<open>None\<close> for its \<open>ValueError\<close>),
  \<open>urlsplit(url).path\<close> and \<open>mimetypes.guess_extension\<close>.
\<close>

record externals =
  humanize_bytes :: "pynum \<Rightarrow> string"
  humanize_bytes_None :: "exn + string"
  timedelta_str :: "int \<Rightarrow> exn + string"
  format_float :: "string \<Rightarrow> rat \<Rightarrow> string"
  int_of_str :: "string \<Rightarrow> int option"
  urlsplit_path :: "string \<Rightarrow> string"
  guess_extension :: "string \<Rightarrow> string option"

record progress =
  downloaded :: int
  total_size :: "int option"
  resumed_from :: int
  total_size_humanized :: string
  time_started :: "rat option"
  time_finished :: "rat option"

text \<open>\<open>Progress.__init__\<close>\<close>

definition Progress_init :: progress where
  "Progress_init =
     \<lparr>downloaded = 0, total_size = None, resumed_from = 0, total_size_humanized = ''?'',
      time_started = None, time_finished = None\<rparr>"

text \<open>
  \<open>Progress.started(resumed_from, total_size)\<close>; \<open>now\<close> is what \<open>time()\<close> returns in this
  call. An \<open>assert\<close> that fails raises \<open>AssertionError\<close> before the object is touched.
\<close>

definition started :: "externals \<Rightarrow> rat \<Rightarrow> progress \<Rightarrow> int \<Rightarrow> int option \<Rightarrow> exn + progress" where
  "started X now self resumed_from' total_size' =
     (if time_started self = None then
        let self1 =
              (case total_size' of
                 None \<Rightarrow> self
               | Some n \<Rightarrow>
                   self\<lparr>total_size_humanized := humanize_bytes X (PInt n), total_size := Some n\<rparr>)
        in Inr (self1\<lparr>downloaded := resumed_from', resumed_from := resumed_from',
                        time_started := Some now\<rparr>)
      else Inl AssertionError)"

definition chunk_downloaded :: "progress \<Rightarrow> int \<Rightarrow> exn + progress" where
  "chunk_downloaded self size' =
     (if time_finished self = None then Inr (self\<lparr>downloaded := downloaded self + size'\<rparr>)
      else Inl AssertionError)"

definition has_finished :: "progress \<Rightarrow> bool" where
  "has_finished self = (case time_finished self of None \<Rightarrow> False | Some t \<Rightarrow> True)"

definition finished :: "rat \<Rightarrow> progress \<Rightarrow> exn + progress" where
  "finished now self =
     (if time_started self = None then Inl AssertionError
      else if time_finished self = None then Inr (self\<lparr>time_finished := Some now\<rparr>)
      else Inl AssertionError)"

text \<open>A run of \<open>chunk_downloaded\<close> calls, one per size; an exception ends the run.\<close>

fun chunks_downloaded :: "progress \<Rightarrow> int list \<Rightarrow> exn + progress" where
  "chunks_downloaded self [] = Inr self"
| "chunks_downloaded self (s # ss) =
     (case chunk_downloaded self s of
        Inl e \<Rightarrow> Inl e
      | Inr self' \<Rightarrow> chunks_downloaded self' ss)"

text \<open>Any sequence of calls of the three methods on one \<open>Progress\<close> object.\<close>

datatype progress_call =
    Call_started rat int "int option"
  | Call_chunk_downloaded int
  | Call_finished rat

fun call :: "externals \<Rightarrow> progress \<Rightarrow> progress_call \<Rightarrow> exn + progress" where
  "call X self (Call_started now r t) = started X now self r t"
| "call X self (Call_chunk_downloaded n) = chunk_downloaded self n"
| "call X self (Call_finished now) = finished now self"

fun calls :: "externals \<Rightarrow> progress \<Rightarrow> progress_call list \<Rightarrow> exn + progress" where
  "calls X self [] = Inr self"
| "calls X self (c # cs) =
     (case call X self c of
        Inl e \<Rightarrow> Inl e
      | Inr self' \<Rightarrow> calls X self' cs)"

fun is_started_call :: "progress_call \<Rightarrow> bool" where
  "is_started_call (Call_started now r t) = True"
| "is_started_call c = False"

fun is_finished_call :: "progress_call \<Rightarrow> bool" where
  "is_finished_call (Call_finished now) = True"
| "is_finished_call c = False"

section \<open>ProgressReporter\<close>

definition CLEAR_LINE :: string where
  "CLEAR_LINE = [CHR 0x0D, CHR 0x1B, CHR ''['', CHR ''K'']"

definition SPINNER :: string where
  "SPINNER = [CHR ''|'', CHR ''/'', CHR ''-'', CHR 0x5C]"

datatype template = PROGRESS | PROGRESS_NO_CONTENT_LENGTH

text \<open>
  \<open>template.format(percentage=..., downloaded=..., total=..., speed=..., eta=...)\<close>. A
  keyword the template does not name is ignored; \<open>{percentage: 6.2f}\<close> on \<open>None\<close> raises.
\<close>

definition format_status ::
  "externals \<Rightarrow> template \<Rightarrow> rat option \<Rightarrow> string \<Rightarrow> string \<Rightarrow> string \<Rightarrow> string \<Rightarrow> exn + string" where
  "format_status X tmpl percentage downloaded' total' speed eta =
     (case tmpl of
        PROGRESS \<Rightarrow>
          (case percentage of
             None \<Rightarrow> Inl TypeError
           | Some pc \<Rightarrow>
               Inr (format_float X '' 6.2f'' pc @ ''% ('' @ downloaded' @ '') of '' @ total'
                    @ '' ('' @ speed @ ''/s) ETA '' @ eta))
      | PROGRESS_NO_CONTENT_LENGTH \<Rightarrow>
          Inr (downloaded' @ '' ('' @ speed @ ''/s) ETA '' @ eta))"

text \<open>\<open>SUMMARY.format(downloaded=..., total=..., speed=..., time=...)\<close>\<close>

definition format_summary :: "externals \<Rightarrow> string \<Rightarrow> string \<Rightarrow> string \<Rightarrow> rat \<Rightarrow> string" where
  "format_summary X downloaded' total' speed time' =
     ''Done. '' @ downloaded' @ '' of '' @ total' @ '' in '' @ format_float X ''0.5f'' time'
     @ ''s ('' @ speed @ ''/s)'' @ [CHR 0x0A]"

text \<open>
  The reporter's own fields. Its \<open>progress\<close> field is a reference to the \<open>Progress\<close> object
  of the download, which the reporter only reads: the methods below take that object as
  an argument. \<open>output\<close> is the sink, as the list of the strings written to it.
\<close>

record progress_reporter =
  "output" :: "string list"
  prev_bytes :: int
  prev_time :: rat
  spinner_pos :: nat
  tick :: rat
  update_interval :: rat
  status_line :: string

text \<open>\<open>ProgressReporter.__init__\<close>; \<open>now\<close> is the reading of \<open>time()\<close> there.\<close>

definition ProgressReporter_init :: "rat \<Rightarrow> string list \<Rightarrow> rat \<Rightarrow> rat \<Rightarrow> progress_reporter" where
  "ProgressReporter_init now output' tick' update_interval' =
     \<lparr>output = output', prev_bytes = 0, prev_time = now, spinner_pos = 0, tick = tick',
      update_interval = update_interval', status_line = []\<rparr>"

text \<open>\<open>int(x)\<close> on a float: truncation towards zero.\<close>

definition py_int :: "rat \<Rightarrow> int" where
  "py_int q = (if 0 \<le> q then \<lfloor>q\<rfloor> else \<lceil>q\<rceil>)"

text \<open>
  The body of the \<open>try\<close> in \<open>report_speed\<close>, in evaluation order: the quotient of the
  speed (a float division, \<open>ZeroDivisionError\<close> on a zero divisor), then
  \<open>self.progress.total_size - downloaded\<close> (\<open>TypeError\<close> on \<open>None\<close>), then the division by
  the speed, \<open>int\<close>, and \<open>str(timedelta(seconds=eta))\<close>. The integers divided are taken to
  be ones a float holds (Python raises \<open>OverflowError\<close> when it converts a larger one,
  from about \<open>1.8e308\<close>, before it looks at the divisor).
\<close>

definition speed_and_eta ::
  "externals \<Rightarrow> rat \<Rightarrow> progress \<Rightarrow> progress_reporter \<Rightarrow> exn + (pynum \<times> string)" where
  "speed_and_eta X now progress' self =
     (if now - prev_time self = 0 then Inl ZeroDivisionError
      else
        let speed = of_int (downloaded progress' - prev_bytes self) / (now - prev_time self)
        in case total_size progress' of
             None \<Rightarrow> Inl TypeError
           | Some total' \<Rightarrow>
               if speed = 0 then Inl ZeroDivisionError
               else
                 (case timedelta_str X (py_int (of_int (total' - downloaded progress') / speed)) of
                    Inl e \<Rightarrow> Inl e
                  | Inr eta \<Rightarrow> Inr (PFloat speed, eta)))"

text \<open>\<open>try: ... except ZeroDivisionError: speed = 0; eta = '?'\<close>: no other exception is caught.\<close>

definition speed_and_eta_guarded ::
  "externals \<Rightarrow> rat \<Rightarrow> progress \<Rightarrow> progress_reporter \<Rightarrow> exn + (pynum \<times> string)" where
  "speed_and_eta_guarded X now progress' self =
     (case speed_and_eta X now progress' self of
        Inl e \<Rightarrow> (if e = ZeroDivisionError then Inr (PInt 0, ''?'') else Inl e)
      | Inr r \<Rightarrow> Inr r)"

text \<open>
  The part of \<open>report_speed\<close> under \<open>if now - self._prev_time >= self._update_interval\<close>:
  the new status line and the new sample, or the exception that leaves the object as it
  was. \<open>if self.progress.total_size\<close> is false on \<open>None\<close> and on \<open>0\<close>.
\<close>

definition recompute_status ::
  "externals \<Rightarrow> rat \<Rightarrow> progress \<Rightarrow> progress_reporter \<Rightarrow> exn + progress_reporter" where
  "recompute_status X now progress' self =
     (let downloaded' = downloaded progress';
          (tmpl, percentage) =
            (case total_size progress' of
               None \<Rightarrow> (PROGRESS_NO_CONTENT_LENGTH, None)
             | Some total' \<Rightarrow>
                 if total' = 0 then (PROGRESS_NO_CONTENT_LENGTH, None)
                 else (PROGRESS, Some (of_int downloaded' / of_int total' * 100)))
      in case speed_and_eta_guarded X now progress' self of
           Inl e \<Rightarrow> Inl e
         | Inr (speed, eta) \<Rightarrow>
             (case format_status X tmpl percentage (humanize_bytes X (PInt downloaded'))
                     (total_size_humanized progress') (humanize_bytes X speed) eta of
                Inl e \<Rightarrow> Inl e
              | Inr line \<Rightarrow>
                  Inr (self\<lparr>status_line := line, prev_time := now, prev_bytes := downloaded'\<rparr>)))"

text \<open>
  The two \<open>output\<close> calls and the spinner step that end \<open>report_speed\<close>. The result of a
  method of the reporter is the exception raised, if any, and the reporter as the call
  leaves it.
\<close>

definition write_status :: "progress_reporter \<Rightarrow> exn option \<times> progress_reporter" where
  "write_status self =
     (if spinner_pos self < length SPINNER then
        (None,
         self\<lparr>output := output self
                  @ [CLEAR_LINE @ [SPINNER ! spinner_pos self] @ '' '' @ status_line self],
              spinner_pos :=
                (if spinner_pos self + 1 = length SPINNER then 0 else spinner_pos self + 1)\<rparr>)
      else (Some IndexError, self))"

text \<open>\<open>report_speed\<close>; \<open>now\<close> is the reading of \<open>time()\<close> at its start.\<close>

definition report_speed ::
  "externals \<Rightarrow> rat \<Rightarrow> progress \<Rightarrow> progress_reporter \<Rightarrow> exn option \<times> progress_reporter" where
  "report_speed X now progress' self =
     (if now - prev_time self \<ge> update_interval self then
        (case recompute_status X now progress' self of
           Inl e \<Rightarrow> (Some e, self)
         | Inr self' \<Rightarrow> write_status self')
      else write_status self)"

text \<open>
  \<open>sum_up\<close>: the two differences, \<open>write(CLEAR_LINE)\<close>, then the arguments of
  \<open>SUMMARY.format\<close> in the order they are written, then the second \<open>write\<close>.
\<close>

definition sum_up :: "externals \<Rightarrow> progress \<Rightarrow> progress_reporter \<Rightarrow> exn option \<times> progress_reporter" where
  "sum_up X progress' self =
     (let actually_downloaded = downloaded progress' - resumed_from progress'
      in case time_finished progress' of
           None \<Rightarrow> (Some TypeError, self)
         | Some tf \<Rightarrow>
             (case time_started progress' of
                None \<Rightarrow> (Some TypeError, self)
              | Some ts \<Rightarrow>
                  let time_taken = tf - ts;
                      self1 = self\<lparr>output := output self @ [CLEAR_LINE]\<rparr>
                  in case (case total_size progress' of
                             None \<Rightarrow> humanize_bytes_None X
                           | Some n \<Rightarrow> Inr (humanize_bytes X (PInt n))) of
                       Inl e \<Rightarrow> (Some e, self1)
                     | Inr total' \<Rightarrow>
                         if time_taken = 0 then (Some ZeroDivisionError, self1)
                         else
                           (None,
                            self1\<lparr>output := output self1 @
                               [format_summary X
                                  (humanize_bytes X (PInt actually_downloaded)) total'
                                  (humanize_bytes X (PFloat (of_int actually_downloaded / time_taken)))
                                  time_taken]\<rparr>)))"

text \<open>
  One wake of \<open>report\<close>. The flag says whether the wake started a timer for the next one
  (\<open>threading.Timer(self._tick, self.report).start()\<close>); the timer itself is not modelled.
\<close>

definition report ::
  "externals \<Rightarrow> rat \<Rightarrow> progress \<Rightarrow> progress_reporter \<Rightarrow> exn option \<times> progress_reporter \<times> bool" where
  "report X now progress' self =
     (if has_finished progress' then
        (case sum_up X progress' self of (e, self') \<Rightarrow> (e, self', False))
      else
        (case report_speed X now progress' self of
           (None, self') \<Rightarrow> (None, self', True)
         | (Some e, self') \<Rightarrow> (Some e, self', False)))"

text \<open>A stand-in for the parameters, to evaluate the functions on concrete inputs.\<close>

definition plain_externals :: externals where
  "plain_externals =
     \<lparr>humanize_bytes =
        (\<lambda>v. (case v of PInt n \<Rightarrow> str_int n | PFloat q \<Rightarrow> str_int \<lfloor>q\<rfloor>) @ '' B''),
      humanize_bytes_None = Inl TypeError,
      timedelta_str = (\<lambda>n. Inr (str_int n @ ''s'')),
      format_float = (\<lambda>spec q. str_int \<lfloor>q\<rfloor>),
      int_of_str = (\<lambda>s. if s \<noteq> [] \<and> list_all is_digit s then Some (int_of_digits s) else None),
      urlsplit_path = (\<lambda>u. u),
      guess_extension = (\<lambda>t. None)\<rparr>"

section \<open>File names\<close>

text \<open>The characters that \<open>\s\<close> matches, so that \<open>\S\<close> matches the others.\<close>

definition is_space :: "char \<Rightarrow> bool" where
  "is_space c =
     (c \<in> set [CHR '' '', CHR 0x09, CHR 0x0A, CHR 0x0B, CHR 0x0C, CHR 0x0D,
                CHR 0x1C, CHR 0x1D, CHR 0x1E, CHR 0x1F, CHR 0x85, CHR 0xA0])"

definition is_name_char :: "char \<Rightarrow> bool" where
  "is_name_char c =
     (c \<in> set ''abcdefghijklmnopqrstuvwxyzABCDEFGHIJKLMNOPQRSTUVWXYZ0123456789._-'')"

text \<open>
  \<open>re.search('filename=(\S+)', s)\<close>, as group 1 of the match: the search tries each
  position from the left, and at the first where \<open>filename=\<close> is followed by a character
  that is not white space the greedy \<open>\S+\<close> takes the whole run of such characters.
\<close>

fun search_filename :: "string \<Rightarrow> string option" where
  "search_filename [] = None"
| "search_filename (c # cs) =
     (case strip_prefix ''filename='' (c # cs) of
        None \<Rightarrow> search_filename cs
      | Some rest \<Rightarrow>
          if takeWhile (\<lambda>x. \<not> is_space x) rest = [] then search_filename cs
          else Some (takeWhile (\<lambda>x. \<not> is_space x) rest))"

text \<open>\<open>s.lstrip('.')\<close>\<close>

definition lstrip_dots :: "string \<Rightarrow> string" where
  "lstrip_dots s = dropWhile (\<lambda>c. c = CHR ''.'') s"

text \<open>\<open>re.match('^[a-zA-Z0-9._-]+$', fn)\<close>, as a truth value.\<close>

definition match_name :: "string \<Rightarrow> bool" where
  "match_name fn = (takeWhile is_name_char fn \<noteq> [] \<and> at_dollar (dropWhile is_name_char fn))"

text \<open>\<open>filename_from_content_disposition\<close>: \<open>None\<close> where the source falls off its end.\<close>

definition filename_from_content_disposition :: "string \<Rightarrow> string option" where
  "filename_from_content_disposition content_disposition =
     (case search_filename content_disposition of
        None \<Rightarrow> None
      | Some group1 \<Rightarrow>
          if group1 = [] then None
          else let fn = lstrip_dots group1
               in if match_name fn then Some fn else None)"

text \<open>\<open>s.rstrip('/')\<close>, \<open>os.path.basename\<close> and \<open>s.split(';')[0]\<close>.\<close>

definition rstrip_slashes :: "string \<Rightarrow> string" where
  "rstrip_slashes s = rev (dropWhile (\<lambda>c. c = CHR ''/'') (rev s))"

definition basename :: "string \<Rightarrow> string" where
  "basename s = rev (takeWhile (\<lambda>c. c \<noteq> CHR ''/'') (rev s))"

definition before_semicolon :: "string \<Rightarrow> string" where
  "before_semicolon s = takeWhile (\<lambda>c. c \<noteq> CHR '';'') s"

definition filename_from_url :: "externals \<Rightarrow> string \<Rightarrow> string option \<Rightarrow> string" where
  "filename_from_url X url' content_type =
     (let fn0 = rstrip_slashes (urlsplit_path X url');
          fn = (if fn0 = [] then ''index'' else basename fn0)
      in if CHR ''.'' \<in> set fn then fn
         else
           (case content_type of
              None \<Rightarrow> fn
            | Some ct \<Rightarrow>
                if ct = [] then fn
                else
                  let ext = (if before_semicolon ct = ''text/plain'' then Some ''.txt''
                             else guess_extension X (before_semicolon ct))
                  in (case ext of
                        None \<Rightarrow> fn
                      | Some e \<Rightarrow> fn @ e)))"

text \<open>
  \<open>get_unique_filename(fn, exists)\<close>: the \<open>while True\<close> loop, with \<open>attempt\<close> as its state.
  A loop that never finds a free name has no result.
\<close>

definition attempt_suffix :: "nat \<Rightarrow> string" where
  "attempt_suffix attempt = (if attempt > 0 then ''-'' @ str_nat attempt else [])"

partial_function (option) unique_filename_loop :: "string \<Rightarrow> (string \<Rightarrow> bool) \<Rightarrow> nat \<Rightarrow> string option" where
  "unique_filename_loop fn exists attempt =
     (if exists (fn @ attempt_suffix attempt)
      then unique_filename_loop fn exists (attempt + 1)
      else Some (fn @ attempt_suffix attempt))"

declare unique_filename_loop.simps [code]

definition get_unique_filename :: "string \<Rightarrow> (string \<Rightarrow> bool) \<Rightarrow> string option" where
  "get_unique_filename fn exists = unique_filename_loop fn exists 0"

section \<open>Download\<close>

text \<open>
  A file object, by what the module uses of it: its name, whether it is closed, and
  whether \<open>seek\<close> and \<open>truncate\<close> work on it (they raise \<open>IOError\<close> on a stream such as the
  standard output). The files on disk are a map from path to size.
\<close>

record pyfile =
  name :: string
  closed :: bool
  seekable :: bool

type_synonym disk = "string \<rightharpoonup> nat"

record response =
  headers :: "string \<rightharpoonup> string"
  status_code :: int
  url :: string

record raw_stream =
  with_headers :: bool
  with_body :: bool
  chunk_size :: nat

record download =
  self_output_file :: "pyfile option"
  self_resume :: bool
  self_resumed_from :: int
  self_progress :: progress
  self_progress_reporter :: progress_reporter

definition PARTIAL_CONTENT :: int where
  "PARTIAL_CONTENT = 206"

text \<open>
  \<open>Download.__init__\<close>; \<open>now\<close> is the reading of \<open>time()\<close> in the reporter's constructor,
  \<open>progress_file\<close> what the sink holds already.
\<close>

definition Download_init :: "rat \<Rightarrow> pyfile option \<Rightarrow> bool \<Rightarrow> string list \<Rightarrow> download" where
  "Download_init now output_file resume progress_file =
     \<lparr>self_output_file = output_file, self_resume = resume, self_resumed_from = 0,
      self_progress = Progress_init,
      self_progress_reporter = ProgressReporter_init now progress_file (1 / 10) 1\<rparr>"

text \<open>
  \<open>pre_request(request_headers)\<close>: the exception raised, if any, the object and the
  dictionary as the call leaves them. \<open>self._output_file.name\<close> raises \<open>AttributeError\<close> on
  \<open>None\<close>; \<open>os.path.getsize\<close> raises \<open>OSError\<close> for a path that is not on the disk. A header
  set to \<open>None\<close> is a key with the value \<open>None\<close>.
\<close>

definition pre_request ::
  "disk \<Rightarrow> download \<Rightarrow> (string \<rightharpoonup> string option) \<Rightarrow>
   exn option \<times> download \<times> (string \<rightharpoonup> string option)" where
  "pre_request disk' self request_headers =
     (let request_headers1 = request_headers(''Accept-Encoding'' \<mapsto> None)
      in if self_resume self then
           (case self_output_file self of
              None \<Rightarrow> (Some AttributeError, self, request_headers1)
            | Some f \<Rightarrow>
                (case disk' (name f) of
                   None \<Rightarrow> (Some OSError, self, request_headers1)
                 | Some bytes_have \<Rightarrow>
                     if bytes_have = 0 then (None, self, request_headers1)
                     else
                       (None,
                        self\<lparr>self_resumed_from := int bytes_have\<rparr>,
                        request_headers1(''Range'' \<mapsto> Some (''bytes='' @ str_nat bytes_have @ ''-'')))))
         else (None, self, request_headers1))"

text \<open>
  The \<open>if self._output_file: ... else: ...\<close> of \<open>start\<close>: the total size after it, or the
  exception, with the object and the disk as they are then; no result when
  \<open>get_unique_filename\<close> never returns. \<open>open(fn, mode='a+b')\<close> creates a file that is not
  there and leaves one that is.
\<close>

definition choose_output ::
  "externals \<Rightarrow> disk \<Rightarrow> download \<Rightarrow> response \<Rightarrow> int option \<Rightarrow>
   ((exn + int option) \<times> download \<times> disk) option" where
  "choose_output X disk' self response' total_size' =
     (case self_output_file self of
        Some f \<Rightarrow>
          if self_resume self \<and> status_code response' = PARTIAL_CONTENT then
            (case headers response' ''Content-Range'' of
               None \<Rightarrow> Some (Inr total_size', self, disk')
             | Some content_range \<Rightarrow>
                 if content_range = [] then Some (Inr total_size', self, disk')
                 else
                   (case parse_content_range content_range (self_resumed_from self) of
                      Inl e \<Rightarrow> Some (Inl e, self, disk')
                    | Inr n \<Rightarrow> Some (Inr (Some n), self, disk')))
          else
            if closed f then Some (Inl ValueError, self\<lparr>self_resumed_from := 0\<rparr>, disk')
            else if seekable f
              then Some (Inr total_size', self\<lparr>self_resumed_from := 0\<rparr>, disk'(name f \<mapsto> 0))
              else Some (Inr total_size', self\<lparr>self_resumed_from := 0\<rparr>, disk')
      | None \<Rightarrow>
          let fn0 = (case headers response' ''Content-Disposition'' of
                       None \<Rightarrow> None
                     | Some v \<Rightarrow> filename_from_content_disposition v);
              fn = (case fn0 of
                      None \<Rightarrow> filename_from_url X (url response') (headers response' ''Content-Type'')
                    | Some n \<Rightarrow>
                        if n = []
                        then filename_from_url X (url response') (headers response' ''Content-Type'')
                        else n)
          in (case get_unique_filename fn (\<lambda>path. disk' path \<noteq> None) of
                None \<Rightarrow> None
              | Some unique \<Rightarrow>
                  Some (Inr total_size',
                        self\<lparr>self_output_file := Some \<lparr>name = unique, closed = False, seekable = True\<rparr>\<rparr>,
                        (case disk' unique of
                           None \<Rightarrow> disk'(unique \<mapsto> 0)
                         | Some n \<Rightarrow> disk'))))"

text \<open>\<open>assert not self._progress.time_started\<close>: \<open>not x\<close> is true on \<open>None\<close> and on \<open>0.0\<close>.\<close>

definition not_time :: "rat option \<Rightarrow> bool" where
  "not_time t = (case t of None \<Rightarrow> True | Some x \<Rightarrow> x = 0)"

text \<open>
  \<open>start(response)\<close>. \<open>now_started\<close> and \<open>now_report\<close> are the readings of \<open>time()\<close> in
  \<open>Progress.started\<close> and in the first \<open>report\<close>. The result is the returned pair or the
  exception raised, with the object and the disk as the call leaves them.
\<close>

definition start ::
  "externals \<Rightarrow> rat \<Rightarrow> rat \<Rightarrow> disk \<Rightarrow> download \<Rightarrow> response \<Rightarrow>
   ((exn + raw_stream \<times> pyfile) \<times> download \<times> disk) option" where
  "start X now_started now_report disk' self response' =
     (if not_time (time_started (self_progress self)) then
        let total_size' = (case headers response' ''Content-Length'' of
                             None \<Rightarrow> None
                           | Some v \<Rightarrow> int_of_str X v)
        in (case choose_output X disk' self response' total_size' of
              None \<Rightarrow> None
            | Some (Inl e, self1, disk1) \<Rightarrow> Some (Inl e, self1, disk1)
            | Some (Inr total_size1, self1, disk1) \<Rightarrow>
                (case started X now_started (self_progress self1) (self_resumed_from self1) total_size1 of
                   Inl e \<Rightarrow> Some (Inl e, self1, disk1)
                 | Inr progress' \<Rightarrow>
                     (case self_output_file self1 of
                        None \<Rightarrow> Some (Inl AttributeError, self1\<lparr>self_progress := progress'\<rparr>, disk1)
                      | Some f \<Rightarrow>
                          let stream = \<lparr>with_headers = False, with_body = True, chunk_size = 1024 * 8\<rparr>;
                              reporter1 = (self_progress_reporter self1)
                                \<lparr>output := output (self_progress_reporter self1)
                                   @ [''Saving to '' @ [CHR 0x22] @ name f @ [CHR 0x22, CHR 0x0A]]\<rparr>
                          in (case report X now_report progress' reporter1 of
                                (e, reporter2, timer) \<Rightarrow>
                                  (let self2 = self1\<lparr>self_progress := progress',
                                                     self_progress_reporter := reporter2\<rparr>
                                   in case e of
                                        Some e' \<Rightarrow> Some (Inl e', self2, disk1)
                                      | None \<Rightarrow> Some (Inr (stream, f), self2, disk1))))))
      else Some (Inl AssertionError, self, disk'))"

text \<open>\<open>finish()\<close> and the chunk callback \<open>_on_progress(chunk)\<close>.\<close>

definition finish :: "rat \<Rightarrow> download \<Rightarrow> exn option \<times> download" where
  "finish now self =
     (case self_output_file self of
        None \<Rightarrow> (Some AttributeError, self)
      | Some f \<Rightarrow>
          if closed f then (Some AssertionError, self)
          else
            let self1 = self\<lparr>self_output_file := Some (f\<lparr>closed := True\<rparr>)\<rparr>
            in (case finished now (self_progress self1) of
                  Inl e \<Rightarrow> (Some e, self1)
                | Inr progress' \<Rightarrow> (None, self1\<lparr>self_progress := progress'\<rparr>)))"

definition on_progress :: "download \<Rightarrow> string \<Rightarrow> exn + download" where
  "on_progress self chunk =
     (case chunk_downloaded (self_progress self) (int (length chunk)) of
        Inl e \<Rightarrow> Inl e
      | Inr progress' \<Rightarrow> Inr (self\<lparr>self_progress := progress'\<rparr>))"

text \<open>
  The property \<open>interrupted\<close>. \<open>a and b and c\<close> is the first operand that is false, or the
  last one: the result is a \<open>bool\<close>, \<open>None\<close> or \<open>0\<close>, read by its truth value.
\<close>

datatype pyobj = PyNone | PyBool bool | PyInt int

fun truth :: "pyobj \<Rightarrow> bool" where
  "truth PyNone = False"
| "truth (PyBool b) = b"
| "truth (PyInt n) = (n \<noteq> 0)"

definition interrupted :: "download \<Rightarrow> exn + pyobj" where
  "interrupted self =
     (case self_output_file self of
        None \<Rightarrow> Inl AttributeError
      | Some f \<Rightarrow>
          if closed f then
            (case total_size (self_progress self) of
               None \<Rightarrow> Inr PyNone
             | Some n \<Rightarrow>
                 if n = 0 then Inr (PyInt 0)
                 else Inr (PyBool (n \<noteq> downloaded (self_progress self))))
          else Inr (PyBool False))"

section \<open>Example runs\<close>

text \<open>
  One download from construction to \<open>finish()\<close>: \<open>pre_request\<close> on an empty dictionary,
  \<open>start\<close>, one chunk callback per chunk, \<open>finish\<close>, with the clock at 0 in the
  constructor, at \<open>t\<close> in \<open>start\<close> and at \<open>t + 1\<close> in \<open>finish\<close>. There is no result when a
  call raises.
\<close>

definition example_file :: pyfile where
  "example_file = \<lparr>name = ''out.bin'', closed = False, seekable = True\<rparr>"

definition example_response :: "int \<Rightarrow> string \<Rightarrow> response" where
  "example_response status content_length =
     \<lparr>headers = [''Content-Length'' \<mapsto> content_length], status_code = status,
      url = ''http://x/y''\<rparr>"

fun on_progress_all :: "download \<Rightarrow> string list \<Rightarrow> exn + download" where
  "on_progress_all self [] = Inr self"
| "on_progress_all self (chunk # chunks) =
     (case on_progress self chunk of
        Inl e \<Rightarrow> Inl e
      | Inr self' \<Rightarrow> on_progress_all self' chunks)"

definition run_download ::
  "rat \<Rightarrow> disk \<Rightarrow> bool \<Rightarrow> response \<Rightarrow> string list \<Rightarrow> download option" where
  "run_download t disk' resume response' chunks =
     (case pre_request disk' (Download_init 0 (Some example_file) resume []) Map.empty of
        (Some e, d, h) \<Rightarrow> None
      | (None, d, h) \<Rightarrow>
          (case start plain_externals t t disk' d response' of
             None \<Rightarrow> None
           | Some (Inl e, d1, disk1) \<Rightarrow> None
           | Some (Inr r, d1, disk1) \<Rightarrow>
               (case on_progress_all d1 chunks of
                  Inl e \<Rightarrow> None
                | Inr d2 \<Rightarrow>
                    (case finish (t + 1) d2 of
                       (Some e, d3) \<Rightarrow> None
                     | (None, d3) \<Rightarrow> Some d3))))"

text \<open>
  A second \<open>start\<close> on one download: the first at clock reading \<open>t\<close> on an empty file and
  a response of 1000 bytes, the second one second later on the disk and the response
  given.
\<close>

definition started_download :: "rat \<Rightarrow> bool \<Rightarrow> download option" where
  "started_download t resume =
     (case start plain_externals t t [''out.bin'' \<mapsto> 0]
             (Download_init 0 (Some example_file) resume []) (example_response 200 ''1000'') of
        None \<Rightarrow> None
      | Some (Inl e, d, disk1) \<Rightarrow> None
      | Some (Inr r, d, disk1) \<Rightarrow> Some d)"

definition start_again ::
  "rat \<Rightarrow> bool \<Rightarrow> disk \<Rightarrow> response \<Rightarrow> ((exn + raw_stream \<times> pyfile) \<times> download \<times> disk) option" where
  "start_again t resume disk' response' =
     (case started_download t resume of
        None \<Rightarrow> None
      | Some d \<Rightarrow> start plain_externals (t + 1) (t + 1) disk' d response')"

definition file_size_after ::
  "((exn + raw_stream \<times> pyfile) \<times> download \<times> disk) option \<Rightarrow> string \<Rightarrow> nat option" where
  "file_size_after r path = (case r of None \<Rightarrow> None | Some (x, d, disk1) \<Rightarrow> disk1 path)"

section \<open>Properties of the Content-Range parser\<close>

lemma parse_content_range_Inr_iff:
  "parse_content_range h r = Inr n \<longleftrightarrow>
     (\<exists>f l inst. match_content_range h = Some (f, l, inst)
        \<and> int_of_digits f = r \<and> int_of_digits f < int_of_digits l
        \<and> (inst = None \<or> map_option int_of_digits inst = Some (int_of_digits l + 1))
        \<and> n = int_of_digits l + 1)"
  by (auto simp: parse_content_range_def Let_def split: option.splits)

text \<open>
  C1. The parser returns \<open>last + 1\<close> exactly for the headers of the grammar with
  \<open>first = resumed_from\<close>, \<open>last \<ge> first\<close> and an instance length that is absent or
  \<open>last + 1\<close>, so a one-byte range such as \<open>bytes 100-100/101\<close> resumed from 100 gives 101.
  The code does not do this: its first test is \<open>first_byte_pos >= last_byte_pos\<close>, where
  the RFC text quoted in the comment above it rejects only a last position less than the
  first. Every header whose two positions are equal is rejected with
  \<open>Invalid Content-Range returned\<close>, whatever the offset.
\<close>

theorem parse_content_range_one_byte_range:
  assumes "match_content_range h = Some (f, l, inst)"
    and "int_of_digits f = int_of_digits l"
  shows "parse_content_range h r = Inl (ContentRangeError Invalid_returned)"
  using assms by (simp add: parse_content_range_def Let_def)

theorem parse_content_range_one_byte_range_witness:
  "match_content_range ''bytes 100-100/101'' = Some (''100'', ''100'', Some ''101'')
   \<and> int_of_digits ''100'' = 100 \<and> int_of_digits ''101'' = 101
   \<and> parse_content_range ''bytes 100-100/101'' 100 = Inl (ContentRangeError Invalid_returned)"
proof -
  have m: "match_content_range ''bytes 100-100/101'' = Some (''100'', ''100'', Some ''101'')"
    by (simp add: match_content_range_def match_last_def match_instance_def is_digit_def
        at_dollar_def)
  have d: "int_of_digits ''100'' = 100" "int_of_digits ''101'' = 101"
    by (simp_all add: int_of_digits_def digit_val_def)
  show ?thesis
    using m d parse_content_range_one_byte_range [OF m, of 100] by simp
qed

section \<open>Properties of Progress\<close>

lemma started_returns:
  assumes "time_started self = None"
  shows "\<exists>q. started X now self r t = Inr q \<and> downloaded q = r \<and> resumed_from q = r
           \<and> time_finished q = time_finished self \<and> time_started q = Some now"
  using assms by (cases t) (simp_all add: started_def Let_def)

lemma chunks_downloaded_returns:
  assumes "time_finished p = None"
  shows "\<exists>q. chunks_downloaded p ss = Inr q \<and> downloaded q = downloaded p + sum_list ss
           \<and> time_finished q = None \<and> time_started q = time_started p"
  using assms
proof (induction ss arbitrary: p)
  case Nil
  then show ?case by simp
next
  case (Cons s ss)
  let ?p' = "p\<lparr>downloaded := downloaded p + s\<rparr>"
  have step: "chunk_downloaded p s = Inr ?p'"
    using Cons.prems by (simp add: chunk_downloaded_def)
  have "time_finished ?p' = None"
    using Cons.prems by simp
  from Cons.IH [OF this] obtain q where
    q: "chunks_downloaded ?p' ss = Inr q" "downloaded q = downloaded ?p' + sum_list ss"
       "time_finished q = None" "time_started q = time_started ?p'"
    by blast
  show ?case
    using step q by (simp add: add.assoc)
qed

lemma sum_list_take_mono:
  fixes ss :: "int list"
  assumes "\<forall>s\<in>set ss. 0 \<le> s" and "j \<le> k"
  shows "sum_list (take j ss) \<le> sum_list (take k ss)"
  using assms
proof (induction ss arbitrary: j k)
  case Nil
  then show ?case by simp
next
  case (Cons a ss)
  show ?case
  proof (cases j)
    case 0
    have "\<And>x. x \<in> set (take k (a # ss)) \<Longrightarrow> 0 \<le> x"
      using Cons.prems(1) by (meson in_set_takeD)
    then have "0 \<le> sum_list (take k (a # ss))"
      by (rule sum_list_nonneg)
    then show ?thesis
      using 0 by simp
  next
    case (Suc j')
    then obtain k' where "k = Suc k'" "j' \<le> k'"
      using Cons.prems(2) by (cases k) auto
    then show ?thesis
      using Suc Cons.IH [of j' k'] Cons.prems(1) by simp
  qed
qed

text \<open>
  C3. On a \<open>Progress\<close> object that has not been started, \<open>started(resumed_from=r,
  total_size=t)\<close> returns, and any run of \<open>chunk_downloaded\<close> calls after it returns too,
  with \<open>downloaded = r + sum of the sizes\<close>; this holds after every prefix of the run, so
  with sizes that are not negative the counter never decreases from one call to a later
  one. The clock reading \<open>now\<close> is arbitrary: the counter does not depend on it.
\<close>

theorem progress_downloaded_is_resumed_plus_chunks:
  assumes "time_started self = None" and "time_finished self = None"
  shows "\<exists>p0. started X now self r t = Inr p0 \<and> downloaded p0 = r
           \<and> (\<exists>p. chunks_downloaded p0 ss = Inr p \<and> downloaded p = r + sum_list ss)
           \<and> (\<forall>k. \<exists>p. chunks_downloaded p0 (take k ss) = Inr p
                    \<and> downloaded p = r + sum_list (take k ss))
           \<and> ((\<forall>s\<in>set ss. 0 \<le> s) \<longrightarrow>
                (\<forall>j k. j \<le> k \<longrightarrow>
                   (\<exists>pj pk. chunks_downloaded p0 (take j ss) = Inr pj
                      \<and> chunks_downloaded p0 (take k ss) = Inr pk
                      \<and> downloaded pj \<le> downloaded pk)))"
proof -
  from started_returns [OF assms(1), of X now r t] obtain p0 where
    p0: "started X now self r t = Inr p0" "downloaded p0 = r"
        "time_finished p0 = time_finished self"
    by blast
  have fin: "time_finished p0 = None"
    using p0(3) assms(2) by simp
  have run: "\<exists>p. chunks_downloaded p0 xs = Inr p \<and> downloaded p = r + sum_list xs" for xs
    using chunks_downloaded_returns [OF fin, of xs] p0(2) by auto
  have mono: "\<exists>pj pk. chunks_downloaded p0 (take j ss) = Inr pj
      \<and> chunks_downloaded p0 (take k ss) = Inr pk \<and> downloaded pj \<le> downloaded pk"
    if nonneg: "\<forall>s\<in>set ss. 0 \<le> s" and jk: "j \<le> k" for j k
  proof -
    obtain pj where pj: "chunks_downloaded p0 (take j ss) = Inr pj"
        "downloaded pj = r + sum_list (take j ss)"
      using run [of "take j ss"] by blast
    obtain pk where pk: "chunks_downloaded p0 (take k ss) = Inr pk"
        "downloaded pk = r + sum_list (take k ss)"
      using run [of "take k ss"] by blast
    have "downloaded pj \<le> downloaded pk"
      using pj(2) pk(2) sum_list_take_mono [OF nonneg jk] by simp
    then show ?thesis
      using pj(1) pk(1) by blast
  qed
  show ?thesis
  proof (rule exI [of _ p0], intro conjI)
    show "started X now self r t = Inr p0"
      by (fact p0(1))
    show "downloaded p0 = r"
      by (fact p0(2))
    show "\<exists>p. chunks_downloaded p0 ss = Inr p \<and> downloaded p = r + sum_list ss"
      by (rule run)
    show "\<forall>k. \<exists>p. chunks_downloaded p0 (take k ss) = Inr p
        \<and> downloaded p = r + sum_list (take k ss)"
      by (intro allI) (rule run)
    show "(\<forall>s\<in>set ss. 0 \<le> s) \<longrightarrow>
        (\<forall>j k. j \<le> k \<longrightarrow>
           (\<exists>pj pk. chunks_downloaded p0 (take j ss) = Inr pj
              \<and> chunks_downloaded p0 (take k ss) = Inr pk
              \<and> downloaded pj \<le> downloaded pk))"
      by (intro impI allI) (rule mono; assumption)
  qed
qed

theorem progress_downloaded_is_resumed_plus_chunks_witness:
  "\<exists>p0. started plain_externals 7 Progress_init 100 (Some 1100) = Inr p0
     \<and> (\<exists>p. chunks_downloaded p0 [400, 600] = Inr p \<and> downloaded p = 1100)
     \<and> (\<exists>pj pk. chunks_downloaded p0 [400] = Inr pj
          \<and> chunks_downloaded p0 [400, 600] = Inr pk \<and> downloaded pj \<le> downloaded pk)"
proof -
  have a: "time_started Progress_init = None" "time_finished Progress_init = None"
    by (simp_all add: Progress_init_def)
  have nonneg: "\<forall>s\<in>set [400, 600 :: int]. 0 \<le> s"
    by simp
  from progress_downloaded_is_resumed_plus_chunks
    [OF a, of plain_externals 7 100 "Some 1100" "[400, 600]"]
  obtain p0 where
    p0: "started plain_externals 7 Progress_init 100 (Some 1100) = Inr p0"
    and total': "\<exists>p. chunks_downloaded p0 [400, 600] = Inr p
        \<and> downloaded p = 100 + sum_list [400, 600]"
    and mono: "(\<forall>s\<in>set [400, 600 :: int]. 0 \<le> s) \<longrightarrow>
        (\<forall>j k. j \<le> k \<longrightarrow>
           (\<exists>pj pk. chunks_downloaded p0 (take j [400, 600]) = Inr pj
              \<and> chunks_downloaded p0 (take k [400, 600]) = Inr pk
              \<and> downloaded pj \<le> downloaded pk))"
    by blast
  from mono nonneg have all: "\<forall>j k. j \<le> k \<longrightarrow>
           (\<exists>pj pk. chunks_downloaded p0 (take j [400, 600]) = Inr pj
              \<and> chunks_downloaded p0 (take k [400, 600]) = Inr pk
              \<and> downloaded pj \<le> downloaded pk)"
    by (rule mp)
  have "(1::nat) \<le> 2"
    by simp
  with all have
    "\<exists>pj pk. chunks_downloaded p0 (take 1 [400, 600]) = Inr pj
       \<and> chunks_downloaded p0 (take 2 [400, 600]) = Inr pk \<and> downloaded pj \<le> downloaded pk"
    by (elim allE [of _ "1::nat"] allE [of _ "2::nat"]) (rule mp)
  then have "\<exists>pj pk. chunks_downloaded p0 [400] = Inr pj
       \<and> chunks_downloaded p0 [400, 600] = Inr pk \<and> downloaded pj \<le> downloaded pk"
    by simp
  then show ?thesis
    using p0 total' by auto
qed

section \<open>Properties of the file names\<close>

lemma unique_filename_loop_first_free:
  assumes "\<not> exists (fn @ attempt_suffix k)" and "a \<le> k"
  shows "\<exists>n. a \<le> n \<and> unique_filename_loop fn exists a = Some (fn @ attempt_suffix n)
           \<and> \<not> exists (fn @ attempt_suffix n)
           \<and> (\<forall>m. a \<le> m \<and> m < n \<longrightarrow> exists (fn @ attempt_suffix m))"
  using assms
proof (induction "k - a" arbitrary: a)
  case 0
  then have "a = k" by simp
  then have "unique_filename_loop fn exists a = Some (fn @ attempt_suffix a)"
    using "0.prems"(1) by (subst unique_filename_loop.simps) simp
  then show ?case
    using \<open>a = k\<close> "0.prems"(1) by (intro exI [of _ a]) auto
next
  case (Suc d)
  show ?case
  proof (cases "exists (fn @ attempt_suffix a)")
    case False
    then have "unique_filename_loop fn exists a = Some (fn @ attempt_suffix a)"
      by (subst unique_filename_loop.simps) simp
    then show ?thesis
      using False by (intro exI [of _ a]) auto
  next
    case True
    have step: "unique_filename_loop fn exists a = unique_filename_loop fn exists (a + 1)"
      using True by (subst unique_filename_loop.simps) simp
    have "d = k - (a + 1)" "a + 1 \<le> k"
      using Suc.hyps(2) by simp_all
    from Suc.hyps(1) [OF this(1) Suc.prems(1) this(2)] obtain n where
      n: "a + 1 \<le> n" "unique_filename_loop fn exists (a + 1) = Some (fn @ attempt_suffix n)"
         "\<not> exists (fn @ attempt_suffix n)"
         "\<forall>m. a + 1 \<le> m \<and> m < n \<longrightarrow> exists (fn @ attempt_suffix m)"
      by blast
    have "exists (fn @ attempt_suffix m)" if "a \<le> m" "m < n" for m
    proof (cases "m = a")
      case True
      then show ?thesis using \<open>exists (fn @ attempt_suffix a)\<close> by simp
    next
      case False
      then have "a + 1 \<le> m" using that(1) by simp
      then show ?thesis using n(4) that(2) by simp
    qed
    then show ?thesis
      using n(1,2,3) step by (intro exI [of _ n]) simp
  qed
qed

text \<open>
  C9. If the existence predicate is false on at least one probed name (the candidate, or
  the candidate followed by \<open>-k\<close> for some \<open>k > 0\<close>), \<open>get_unique_filename\<close> returns: the
  candidate when it does not exist, and otherwise the first of \<open>candidate-1\<close>,
  \<open>candidate-2\<close>, ... that does not exist.
\<close>

theorem get_unique_filename_first_free:
  assumes "\<not> exists (fn @ attempt_suffix k)"
  shows "(\<not> exists fn \<longrightarrow> get_unique_filename fn exists = Some fn)
       \<and> (exists fn \<longrightarrow>
            (\<exists>n>0. get_unique_filename fn exists = Some (fn @ ''-'' @ str_nat n)
               \<and> \<not> exists (fn @ ''-'' @ str_nat n)
               \<and> (\<forall>m. 0 < m \<and> m < n \<longrightarrow> exists (fn @ ''-'' @ str_nat m))))"
proof (intro conjI impI)
  assume "\<not> exists fn"
  then show "get_unique_filename fn exists = Some fn"
    unfolding get_unique_filename_def
    by (subst unique_filename_loop.simps) (simp add: attempt_suffix_def)
next
  assume taken: "exists fn"
  have "(0::nat) \<le> k"
    by simp
  from unique_filename_loop_first_free [of "exists" fn k 0, OF assms this] obtain n where
    n: "unique_filename_loop fn exists 0 = Some (fn @ attempt_suffix n)"
       "\<not> exists (fn @ attempt_suffix n)"
       "\<forall>m. 0 \<le> m \<and> m < n \<longrightarrow> exists (fn @ attempt_suffix m)"
    by blast
  have pos: "0 < n"
  proof (rule ccontr)
    assume "\<not> 0 < n"
    then have "attempt_suffix n = []"
      by (simp add: attempt_suffix_def)
    then show False
      using n(2) taken by simp
  qed
  have "\<forall>m. 0 < m \<and> m < n \<longrightarrow> exists (fn @ ''-'' @ str_nat m)"
    using n(3) by (auto simp: attempt_suffix_def)
  then show "\<exists>n>0. get_unique_filename fn exists = Some (fn @ ''-'' @ str_nat n)
               \<and> \<not> exists (fn @ ''-'' @ str_nat n)
               \<and> (\<forall>m. 0 < m \<and> m < n \<longrightarrow> exists (fn @ ''-'' @ str_nat m))"
    using n(1,2) pos unfolding get_unique_filename_def
    by (intro exI [of _ n]) (simp add: attempt_suffix_def)
qed

theorem get_unique_filename_first_free_witness:
  "get_unique_filename ''a'' (\<lambda>s. s = ''a'' \<or> s = ''a-1'') = Some ''a-2''
   \<and> (\<exists>n>0. get_unique_filename ''a'' (\<lambda>s. s = ''a'' \<or> s = ''a-1'') = Some (''a'' @ ''-'' @ str_nat n))
   \<and> get_unique_filename ''b'' (\<lambda>s. s = ''a'' \<or> s = ''a-1'') = Some ''b''"
proof -
  let ?E = "\<lambda>s. s = ''a'' \<or> s = ''a-1''"
  have free: "\<not> ?E (''a'' @ attempt_suffix 2)"
    by (simp add: attempt_suffix_def str_nat.simps digit_char_def)
  have freeb: "\<not> ?E (''b'' @ attempt_suffix 0)"
    by (simp add: attempt_suffix_def)
  have "\<exists>n>0. get_unique_filename ''a'' ?E = Some (''a'' @ ''-'' @ str_nat n)"
    using get_unique_filename_first_free [of ?E "''a''" 2, OF free] by auto
  moreover have "get_unique_filename ''b'' ?E = Some ''b''"
    using get_unique_filename_first_free [of ?E "''b''" 0, OF freeb] by simp
  moreover have "get_unique_filename ''a'' ?E = Some ''a-2''"
    by (simp add: get_unique_filename_def unique_filename_loop.simps attempt_suffix_def
        str_nat.simps digit_char_def)
  ultimately show ?thesis by blast
qed

lemma strip_prefix_Some_iff: "strip_prefix p s = Some r \<longleftrightarrow> s = p @ r"
  by (induction p s rule: strip_prefix.induct) auto

lemma dropWhile_hd: "dropWhile P xs = [] \<or> \<not> P (hd (dropWhile P xs))"
  by (metis hd_dropWhile)

lemma takeWhile_run:
  assumes "\<forall>x\<in>set xs. P x" and "ys = [] \<or> \<not> P (hd ys)"
  shows "takeWhile P (xs @ ys) = xs"
proof -
  have "takeWhile P ys = []"
    using assms(2) by (cases ys) auto
  then show ?thesis
    using assms(1) by (simp add: takeWhile_append2)
qed

lemma no_match_at_head:
  assumes "strip_prefix ''filename='' s = None
           \<or> (\<exists>r. strip_prefix ''filename='' s = Some r \<and> takeWhile (\<lambda>x. \<not> is_space x) r = [])"
  shows "\<not> (\<exists>c rest. s = ''filename='' @ c # rest \<and> \<not> is_space c)"
proof
  assume "\<exists>c rest. s = ''filename='' @ c # rest \<and> \<not> is_space c"
  then obtain c rest where m: "s = ''filename='' @ c # rest" "\<not> is_space c"
    by blast
  have "strip_prefix ''filename='' s = Some (c # rest)"
    using m(1) by (simp only: strip_prefix_Some_iff)
  moreover have "takeWhile (\<lambda>x. \<not> is_space x) (c # rest) \<noteq> []"
    using m(2) by simp
  ultimately show False
    using assms by auto
qed

lemma search_filename_Some:
  assumes "search_filename s = Some tok"
  shows "\<exists>pre rest. s = pre @ ''filename='' @ tok @ rest \<and> tok \<noteq> []
           \<and> (\<forall>c\<in>set tok. \<not> is_space c) \<and> (rest = [] \<or> is_space (hd rest))
           \<and> (\<forall>pre' c rest'. s = pre' @ ''filename='' @ c # rest' \<and> \<not> is_space c
                 \<longrightarrow> length pre \<le> length pre')"
  using assms
proof (induction s)
  case Nil
  then show ?case by simp
next
  case (Cons a s)
  let ?nsp = "\<lambda>x. \<not> is_space x"
  have skip: ?case
    if nohead: "strip_prefix ''filename='' (a # s) = None
           \<or> (\<exists>r. strip_prefix ''filename='' (a # s) = Some r \<and> takeWhile ?nsp r = [])"
      and tl: "search_filename s = Some tok"
  proof -
    from Cons.IH [OF tl] obtain pre rest where
      d: "s = pre @ ''filename='' @ tok @ rest" "tok \<noteq> []" "\<forall>c\<in>set tok. \<not> is_space c"
         "rest = [] \<or> is_space (hd rest)"
      and first: "\<forall>pre' c rest'. s = pre' @ ''filename='' @ c # rest' \<and> \<not> is_space c
                 \<longrightarrow> length pre \<le> length pre'"
      by blast
    have "length (a # pre) \<le> length pre'"
      if m: "a # s = pre' @ ''filename='' @ c # rest'" "\<not> is_space c" for pre' c rest'
    proof (cases pre')
      case Nil
      then have "\<exists>c rest. a # s = ''filename='' @ c # rest \<and> \<not> is_space c"
        using m by auto
      then show ?thesis
        using no_match_at_head [OF nohead] by blast
    next
      case (Cons x pre'')
      then have "s = pre'' @ ''filename='' @ c # rest'"
        using m(1) by simp
      then have "length pre \<le> length pre''"
        using first m(2) by blast
      then show ?thesis
        using Cons by simp
    qed
    then have "\<forall>pre' c rest'. a # s = pre' @ ''filename='' @ c # rest' \<and> \<not> is_space c
                 \<longrightarrow> length (a # pre) \<le> length pre'"
      by blast
    moreover have "a # s = (a # pre) @ ''filename='' @ tok @ rest"
      using d(1) by simp
    ultimately show ?thesis
      using d(2,3,4) by blast
  qed
  show ?case
  proof (cases "strip_prefix ''filename='' (a # s)")
    case None
    then have "search_filename s = Some tok"
      using Cons.prems by simp
    then show ?thesis
      using None by (intro skip) simp_all
  next
    case (Some r)
    show ?thesis
    proof (cases "takeWhile ?nsp r = []")
      case True
      then have "search_filename s = Some tok"
        using Cons.prems Some by simp
      then show ?thesis
        using Some True by (intro skip) simp_all
    next
      case False
      then have tok: "tok = takeWhile ?nsp r"
        using Cons.prems Some by simp
      have s: "a # s = ''filename='' @ r"
        using Some by (simp only: strip_prefix_Some_iff)
      have r: "r = tok @ dropWhile ?nsp r"
        using tok by simp
      have nsp: "\<forall>c\<in>set tok. \<not> is_space c"
        using tok by (auto dest: set_takeWhileD)
      have rest: "dropWhile ?nsp r = [] \<or> is_space (hd (dropWhile ?nsp r))"
        using dropWhile_hd [of ?nsp r] by simp
      have d: "a # s = [] @ ''filename='' @ tok @ dropWhile ?nsp r"
        using s r by simp
      have first: "\<forall>pre' c rest'. a # s = pre' @ ''filename='' @ c # rest' \<and> \<not> is_space c
                 \<longrightarrow> length ([]::string) \<le> length pre'"
        by simp
      have ne: "tok \<noteq> []"
        using False tok by simp
      show ?thesis
        by (rule exI [of _ "[]"], rule exI [of _ "dropWhile ?nsp r"]) (intro conjI d ne nsp rest first)
    qed
  qed
qed

lemma search_filename_Cons:
  "search_filename (a # t) = search_filename t \<or> (\<exists>x. search_filename (a # t) = Some x)"
  by (simp del: strip_prefix.simps split: option.splits)

lemma search_filename_finds:
  assumes "s = pre @ ''filename='' @ c # rest" and "\<not> is_space c"
  shows "search_filename s \<noteq> None"
  using assms
proof (induction pre arbitrary: s)
  case Nil
  then have "strip_prefix ''filename='' s = Some (c # rest)"
    by (simp only: strip_prefix_Some_iff) simp
  then show ?case
    using Nil by simp
next
  case (Cons a pre)
  then have s: "s = a # (pre @ ''filename='' @ c # rest)"
    by simp
  have tl: "search_filename (pre @ ''filename='' @ c # rest) \<noteq> None"
    using Cons.IH [OF refl Cons.prems(2)] .
  show ?case
    unfolding s using tl search_filename_Cons [of a "pre @ ''filename='' @ c # rest"] by auto
qed

lemma search_filename_first:
  assumes d: "s = pre @ ''filename='' @ tok @ rest" and ne: "tok \<noteq> []"
    and nsp: "\<forall>c\<in>set tok. \<not> is_space c" and rest: "rest = [] \<or> is_space (hd rest)"
    and first: "\<forall>pre' c rest'. s = pre' @ ''filename='' @ c # rest' \<and> \<not> is_space c
                 \<longrightarrow> length pre \<le> length pre'"
  shows "search_filename s = Some tok"
proof -
  obtain c tl where tok: "tok = c # tl"
    using ne by (cases tok) auto
  have c: "\<not> is_space c"
    using nsp tok by simp
  have m1: "s = pre @ ''filename='' @ c # (tl @ rest)"
    using d tok by simp
  have "search_filename s \<noteq> None"
    using search_filename_finds [OF m1 c] .
  then obtain tok2 where found: "search_filename s = Some tok2"
    by auto
  from search_filename_Some [OF found] obtain pre2 rest2 where
    d2: "s = pre2 @ ''filename='' @ tok2 @ rest2" "tok2 \<noteq> []" "\<forall>c\<in>set tok2. \<not> is_space c"
        "rest2 = [] \<or> is_space (hd rest2)"
    and first2: "\<forall>pre' c rest'. s = pre' @ ''filename='' @ c # rest' \<and> \<not> is_space c
                 \<longrightarrow> length pre2 \<le> length pre'"
    by blast
  obtain c2 tl2 where tok2: "tok2 = c2 # tl2"
    using d2(2) by (cases tok2) auto
  have m2: "s = pre2 @ ''filename='' @ c2 # (tl2 @ rest2)" "\<not> is_space c2"
    using d2(1,3) tok2 by simp_all
  have "length pre2 \<le> length pre"
    using first2 m1 c by blast
  moreover have "length pre \<le> length pre2"
    using first m2 by blast
  ultimately have len: "length pre = length pre2"
    by simp
  have eq: "pre @ (''filename='' @ tok @ rest) = pre2 @ (''filename='' @ tok2 @ rest2)"
    using d d2(1) by simp
  have "(pre @ (''filename='' @ tok @ rest) = pre2 @ (''filename='' @ tok2 @ rest2))
      = (pre = pre2 \<and> ''filename='' @ tok @ rest = ''filename='' @ tok2 @ rest2)"
    by (rule append_eq_append_conv) (simp add: len)
  then have "''filename='' @ tok @ rest = ''filename='' @ tok2 @ rest2"
    using eq by blast
  then have same: "tok @ rest = tok2 @ rest2"
    by simp
  have "tok = takeWhile (\<lambda>x. \<not> is_space x) (tok @ rest)"
    using takeWhile_run [of tok "\<lambda>x. \<not> is_space x" rest] nsp rest by simp
  also have "\<dots> = takeWhile (\<lambda>x. \<not> is_space x) (tok2 @ rest2)"
    using same by simp
  also have "\<dots> = tok2"
    using takeWhile_run [of tok2 "\<lambda>x. \<not> is_space x" rest2] d2(3,4) by simp
  finally show ?thesis
    using found by simp
qed

lemma match_name_iff:
  assumes "\<forall>c\<in>set fn. \<not> is_space c"
  shows "match_name fn \<longleftrightarrow> fn \<noteq> [] \<and> (\<forall>c\<in>set fn. is_name_char c)"
proof -
  have nl: "is_space (CHR 0x0A)"
    by (simp add: is_space_def)
  have "dropWhile is_name_char fn \<noteq> [CHR 0x0A]"
  proof
    assume "dropWhile is_name_char fn = [CHR 0x0A]"
    then have "CHR 0x0A \<in> set (dropWhile is_name_char fn)"
      by simp
    then have "CHR 0x0A \<in> set fn"
      by (rule set_dropWhileD)
    then show False
      using assms nl by blast
  qed
  then have "match_name fn \<longleftrightarrow> takeWhile is_name_char fn \<noteq> [] \<and> dropWhile is_name_char fn = []"
    by (simp add: match_name_def at_dollar_def)
  also have "\<dots> \<longleftrightarrow> fn \<noteq> [] \<and> (\<forall>c\<in>set fn. is_name_char c)"
    by (cases fn) (auto simp: dropWhile_eq_Nil_conv)
  finally show ?thesis .
qed

lemma lstrip_dots_keeps:
  assumes "c \<in> set s" and "c \<noteq> CHR ''.''"
  shows "c \<in> set (lstrip_dots s)"
  using assms unfolding lstrip_dots_def by (induction s) auto

lemma filename_from_content_disposition_Some_iff:
  "filename_from_content_disposition cd = Some fn \<longleftrightarrow>
     (\<exists>tok. search_filename cd = Some tok \<and> fn = lstrip_dots tok \<and> fn \<noteq> []
        \<and> (\<forall>c\<in>set fn. is_name_char c))"
proof (cases "search_filename cd")
  case None
  then show ?thesis
    by (simp add: filename_from_content_disposition_def)
next
  case (Some tok)
  from search_filename_Some [OF Some] have tok: "tok \<noteq> []" "\<forall>c\<in>set tok. \<not> is_space c"
    by auto
  have "\<forall>c\<in>set (lstrip_dots tok). \<not> is_space c"
    using tok(2) unfolding lstrip_dots_def by (auto dest: set_dropWhileD)
  from match_name_iff [OF this] show ?thesis
    using Some tok(1) by (auto simp: filename_from_content_disposition_def Let_def)
qed

lemma space_not_name_char:
  assumes "is_space c"
  shows "\<not> is_name_char c"
  using assms unfolding is_space_def by (auto simp: is_name_char_def)

lemma name_char_not_space:
  assumes "is_name_char c"
  shows "\<not> is_space c"
  using assms space_not_name_char by blast

lemma lstrip_dots_run:
  assumes "\<forall>c\<in>set dots. c = CHR ''.''" and "fn \<noteq> []" and "hd fn \<noteq> CHR ''.''"
  shows "lstrip_dots (dots @ fn) = fn"
proof -
  have "dropWhile (\<lambda>c. c = CHR ''.'') fn = fn"
    using assms(2,3) by (cases fn) simp_all
  then show ?thesis
    using assms(1) by (simp add: lstrip_dots_def dropWhile_append2)
qed

lemma lstrip_dots_split:
  "\<exists>dots. tok = dots @ lstrip_dots tok \<and> (\<forall>c\<in>set dots. c = CHR ''.'')
     \<and> (lstrip_dots tok = [] \<or> hd (lstrip_dots tok) \<noteq> CHR ''.'')"
proof -
  let ?P = "\<lambda>c. c = CHR ''.''"
  have a: "tok = takeWhile ?P tok @ lstrip_dots tok"
    by (simp add: lstrip_dots_def)
  have b: "\<forall>c\<in>set (takeWhile ?P tok). c = CHR ''.''"
    by (auto dest: set_takeWhileD)
  have c: "lstrip_dots tok = [] \<or> hd (lstrip_dots tok) \<noteq> CHR ''.''"
    unfolding lstrip_dots_def by (rule dropWhile_hd)
  show ?thesis
    by (rule exI [of _ "takeWhile ?P tok"]) (intro conjI a b c)
qed

lemma first_token_of_result:
  assumes "filename_from_content_disposition cd = Some fn"
  shows "\<exists>pre dots rest. cd = pre @ ''filename='' @ dots @ fn @ rest
        \<and> (\<forall>c\<in>set dots. c = CHR ''.'') \<and> fn \<noteq> [] \<and> hd fn \<noteq> CHR ''.''
        \<and> (\<forall>c\<in>set fn. is_name_char c) \<and> (rest = [] \<or> is_space (hd rest))
        \<and> (\<forall>pre' c rest'. cd = pre' @ ''filename='' @ c # rest' \<and> \<not> is_space c
              \<longrightarrow> length pre \<le> length pre')"
proof -
  have "\<exists>tok. search_filename cd = Some tok \<and> fn = lstrip_dots tok \<and> fn \<noteq> []
        \<and> (\<forall>c\<in>set fn. is_name_char c)"
    using assms by (simp only: filename_from_content_disposition_Some_iff)
  then obtain tok where tok: "search_filename cd = Some tok" "fn = lstrip_dots tok" "fn \<noteq> []"
      "\<forall>c\<in>set fn. is_name_char c"
    by (elim exE conjE)
  from search_filename_Some [OF tok(1)] obtain pre rest where
    d: "cd = pre @ ''filename='' @ tok @ rest" "rest = [] \<or> is_space (hd rest)"
    and first: "\<forall>pre' c rest'. cd = pre' @ ''filename='' @ c # rest' \<and> \<not> is_space c
                 \<longrightarrow> length pre \<le> length pre'"
    by (elim exE conjE)
  from lstrip_dots_split [of tok] obtain dots where
    dots: "tok = dots @ lstrip_dots tok" "\<forall>c\<in>set dots. c = CHR ''.''"
      "lstrip_dots tok = [] \<or> hd (lstrip_dots tok) \<noteq> CHR ''.''"
    by (elim exE conjE)
  have split: "tok = dots @ fn"
    using dots(1) tok(2) by simp
  have hd: "hd fn \<noteq> CHR ''.''"
    using dots(3) tok(2,3) by simp
  have cd: "cd = pre @ ''filename='' @ dots @ fn @ rest"
    unfolding d(1) split by simp
  show ?thesis
    by (rule exI [of _ pre], rule exI [of _ dots], rule exI [of _ rest])
      (intro conjI cd dots(2) tok(3) hd tok(4) d(2) first)
qed

lemma result_of_first_token:
  assumes d: "cd = pre @ ''filename='' @ dots @ fn @ rest"
    and dots: "\<forall>c\<in>set dots. c = CHR ''.''" and ne: "fn \<noteq> []" and hd: "hd fn \<noteq> CHR ''.''"
    and name: "\<forall>c\<in>set fn. is_name_char c" and rest: "rest = [] \<or> is_space (hd rest)"
    and first: "\<forall>pre' c rest'. cd = pre' @ ''filename='' @ c # rest' \<and> \<not> is_space c
              \<longrightarrow> length pre \<le> length pre'"
  shows "filename_from_content_disposition cd = Some fn"
proof -
  have dot: "\<not> is_space (CHR ''.'')"
    by (simp add: is_space_def)
  have nsp: "\<forall>c\<in>set (dots @ fn). \<not> is_space c"
  proof
    fix c
    assume "c \<in> set (dots @ fn)"
    then have "c \<in> set dots \<or> c \<in> set fn"
      by simp
    then show "\<not> is_space c"
    proof
      assume "c \<in> set dots"
      then have "c = CHR ''.''"
        using dots by blast
      then show ?thesis
        using dot by simp
    next
      assume "c \<in> set fn"
      then have "is_name_char c"
        using name by blast
      then show ?thesis
        by (rule name_char_not_space)
    qed
  qed
  have cd: "cd = pre @ ''filename='' @ (dots @ fn) @ rest"
    unfolding d by simp
  have ne': "dots @ fn \<noteq> []"
    using ne by simp
  have found: "search_filename cd = Some (dots @ fn)"
    by (rule search_filename_first [OF cd ne' nsp rest first])
  have strip: "lstrip_dots (dots @ fn) = fn"
    using dots ne hd by (rule lstrip_dots_run)
  have "\<exists>tok. search_filename cd = Some tok \<and> fn = lstrip_dots tok \<and> fn \<noteq> []
        \<and> (\<forall>c\<in>set fn. is_name_char c)"
    by (rule exI [of _ "dots @ fn"]) (intro conjI found strip [symmetric] ne name)
  then show ?thesis
    by (simp only: filename_from_content_disposition_Some_iff)
qed

text \<open>
  C8, as the code has it. The token is the longest run of characters that are not white
  space right after the first \<open>filename=\<close> of the header that such a character follows.
  The function returns a name exactly when there is a token, and the token is a run of
  dots followed by the name, which is not empty, does not start with a dot and is made
  of \<open>[A-Za-z0-9._-]\<close>; it returns nothing otherwise: when no \<open>filename=\<close> is followed
  by a character that is not white space, and whenever the token contains \<open>/\<close>. It
  returns \<open>report.tar.gz\<close> for \<open>attachment; filename=report.tar.gz\<close> and \<open>secret\<close> for
  \<open>attachment; filename=.secret\<close>. Quotes are not removed: for
  \<open>attachment; filename=".secret"\<close> the token is \<open>".secret"\<close> and nothing is returned. White
  space ends the token: for \<open>attachment; filename=my file.txt\<close> the result is \<open>my\<close>, and
  so it is with a no-break space in place of the space.
\<close>

theorem filename_from_content_disposition_token:
  "(filename_from_content_disposition cd = Some fn \<longleftrightarrow>
      (\<exists>pre dots rest. cd = pre @ ''filename='' @ dots @ fn @ rest
         \<and> (\<forall>c\<in>set dots. c = CHR ''.'') \<and> fn \<noteq> [] \<and> hd fn \<noteq> CHR ''.''
         \<and> (\<forall>c\<in>set fn. is_name_char c) \<and> (rest = [] \<or> is_space (hd rest))
         \<and> (\<forall>pre' c rest'. cd = pre' @ ''filename='' @ c # rest' \<and> \<not> is_space c
               \<longrightarrow> length pre \<le> length pre')))
   \<and> (cd = pre @ ''filename='' @ tok @ rest \<and> tok \<noteq> [] \<and> (\<forall>c\<in>set tok. \<not> is_space c)
        \<and> (rest = [] \<or> is_space (hd rest))
        \<and> (\<forall>pre' c rest'. cd = pre' @ ''filename='' @ c # rest' \<and> \<not> is_space c
              \<longrightarrow> length pre \<le> length pre')
        \<and> CHR ''/'' \<in> set tok
      \<longrightarrow> filename_from_content_disposition cd = None)
   \<and> ((\<forall>pre' c rest'. cd = pre' @ ''filename='' @ c # rest' \<longrightarrow> is_space c)
      \<longrightarrow> filename_from_content_disposition cd = None)
   \<and> filename_from_content_disposition ''attachment; filename=report.tar.gz'' = Some ''report.tar.gz''
   \<and> filename_from_content_disposition ''attachment; filename=.secret'' = Some ''secret''
   \<and> filename_from_content_disposition
        (''attachment; filename='' @ [CHR 0x22] @ ''.secret'' @ [CHR 0x22]) = None
   \<and> filename_from_content_disposition ''attachment; filename=my file.txt'' = Some ''my''
   \<and> filename_from_content_disposition
        (''attachment; filename=my'' @ [CHR 0xA0] @ ''file.txt'') = Some ''my''"
proof (intro conjI impI)
  show "filename_from_content_disposition cd = Some fn \<longleftrightarrow>
      (\<exists>pre dots rest. cd = pre @ ''filename='' @ dots @ fn @ rest
         \<and> (\<forall>c\<in>set dots. c = CHR ''.'') \<and> fn \<noteq> [] \<and> hd fn \<noteq> CHR ''.''
         \<and> (\<forall>c\<in>set fn. is_name_char c) \<and> (rest = [] \<or> is_space (hd rest))
         \<and> (\<forall>pre' c rest'. cd = pre' @ ''filename='' @ c # rest' \<and> \<not> is_space c
               \<longrightarrow> length pre \<le> length pre'))"
  proof
    assume "filename_from_content_disposition cd = Some fn"
    then show "\<exists>pre dots rest. cd = pre @ ''filename='' @ dots @ fn @ rest
         \<and> (\<forall>c\<in>set dots. c = CHR ''.'') \<and> fn \<noteq> [] \<and> hd fn \<noteq> CHR ''.''
         \<and> (\<forall>c\<in>set fn. is_name_char c) \<and> (rest = [] \<or> is_space (hd rest))
         \<and> (\<forall>pre' c rest'. cd = pre' @ ''filename='' @ c # rest' \<and> \<not> is_space c
               \<longrightarrow> length pre \<le> length pre')"
      by (rule first_token_of_result)
  next
    assume "\<exists>pre dots rest. cd = pre @ ''filename='' @ dots @ fn @ rest
         \<and> (\<forall>c\<in>set dots. c = CHR ''.'') \<and> fn \<noteq> [] \<and> hd fn \<noteq> CHR ''.''
         \<and> (\<forall>c\<in>set fn. is_name_char c) \<and> (rest = [] \<or> is_space (hd rest))
         \<and> (\<forall>pre' c rest'. cd = pre' @ ''filename='' @ c # rest' \<and> \<not> is_space c
               \<longrightarrow> length pre \<le> length pre')"
    then show "filename_from_content_disposition cd = Some fn"
      by (elim exE conjE) (rule result_of_first_token)
  qed
next
  assume a: "cd = pre @ ''filename='' @ tok @ rest \<and> tok \<noteq> [] \<and> (\<forall>c\<in>set tok. \<not> is_space c)
        \<and> (rest = [] \<or> is_space (hd rest))
        \<and> (\<forall>pre' c rest'. cd = pre' @ ''filename='' @ c # rest' \<and> \<not> is_space c
              \<longrightarrow> length pre \<le> length pre')
        \<and> CHR ''/'' \<in> set tok"
  then have found: "search_filename cd = Some tok"
    by (elim conjE) (rule search_filename_first)
  have slash: "CHR ''/'' \<in> set tok"
    using a by (elim conjE)
  have "CHR ''/'' \<in> set (lstrip_dots tok)"
    using slash by (rule lstrip_dots_keeps) simp
  moreover have "\<not> is_name_char (CHR ''/'')"
    by (simp add: is_name_char_def)
  ultimately have bad: "\<not> (\<forall>c\<in>set (lstrip_dots tok). is_name_char c)"
    by blast
  show "filename_from_content_disposition cd = None"
  proof (cases "filename_from_content_disposition cd")
    case None
    then show ?thesis .
  next
    case (Some x)
    then have "\<exists>t. search_filename cd = Some t \<and> x = lstrip_dots t \<and> x \<noteq> []
        \<and> (\<forall>c\<in>set x. is_name_char c)"
      by (simp only: filename_from_content_disposition_Some_iff)
    then obtain t where t: "search_filename cd = Some t" "x = lstrip_dots t"
        "\<forall>c\<in>set x. is_name_char c"
      by (elim exE conjE)
    have "t = tok"
      using t(1) found by simp
    then show ?thesis
      using t(2,3) bad by simp
  qed
next
  assume none: "\<forall>pre' c rest'. cd = pre' @ ''filename='' @ c # rest' \<longrightarrow> is_space c"
  have "search_filename cd = None"
  proof (cases "search_filename cd")
    case None
    then show ?thesis .
  next
    case (Some t)
    from search_filename_Some [OF Some] obtain p r where
      d: "cd = p @ ''filename='' @ t @ r" "t \<noteq> []" "\<forall>c\<in>set t. \<not> is_space c"
      by (elim exE conjE)
    obtain c tl where t: "t = c # tl"
      using d(2) by (cases t) auto
    have "cd = p @ ''filename='' @ c # (tl @ r)"
      unfolding d(1) t by simp
    then have "is_space c"
      using none by blast
    then show ?thesis
      using d(3) t by simp
  qed
  then show "filename_from_content_disposition cd = None"
    by (simp add: filename_from_content_disposition_def)
qed (simp_all add: filename_from_content_disposition_def lstrip_dots_def match_name_def
      is_space_def is_name_char_def at_dollar_def)

theorem filename_from_content_disposition_token_witness:
  "filename_from_content_disposition ''attachment; filename=a/b'' = None
   \<and> (\<exists>pre dots rest.
         ''attachment; filename=report.tar.gz'' = pre @ ''filename='' @ dots @ ''report.tar.gz'' @ rest
         \<and> (\<forall>c\<in>set dots. c = CHR ''.'') \<and> (rest = [] \<or> is_space (hd rest)))"
proof -
  have t: "search_filename ''attachment; filename=a/b'' = Some ''a/b''"
    by (simp add: is_space_def)
  from search_filename_Some [OF t] obtain pre rest where
    d: "''attachment; filename=a/b'' = pre @ ''filename='' @ ''a/b'' @ rest
        \<and> ''a/b'' \<noteq> [] \<and> (\<forall>c\<in>set ''a/b''. \<not> is_space c) \<and> (rest = [] \<or> is_space (hd rest))
        \<and> (\<forall>pre' c rest'. ''attachment; filename=a/b'' = pre' @ ''filename='' @ c # rest'
            \<and> \<not> is_space c \<longrightarrow> length pre \<le> length pre')"
    by (elim exE)
  have slash: "CHR ''/'' \<in> set ''a/b''"
    by simp
  note thm1 = filename_from_content_disposition_token
    [where cd = "''attachment; filename=a/b''" and pre = pre and tok = "''a/b''" and rest = rest
       and fn = "''x''"]
  have imp1: "''attachment; filename=a/b'' = pre @ ''filename='' @ ''a/b'' @ rest
        \<and> ''a/b'' \<noteq> [] \<and> (\<forall>c\<in>set ''a/b''. \<not> is_space c) \<and> (rest = [] \<or> is_space (hd rest))
        \<and> (\<forall>pre' c rest'. ''attachment; filename=a/b'' = pre' @ ''filename='' @ c # rest'
            \<and> \<not> is_space c \<longrightarrow> length pre \<le> length pre')
        \<and> CHR ''/'' \<in> set ''a/b''
      \<longrightarrow> filename_from_content_disposition ''attachment; filename=a/b'' = None"
    using thm1 by (elim conjE)
  have 1: "filename_from_content_disposition ''attachment; filename=a/b'' = None"
  proof (rule mp [OF imp1])
    show "''attachment; filename=a/b'' = pre @ ''filename='' @ ''a/b'' @ rest
        \<and> ''a/b'' \<noteq> [] \<and> (\<forall>c\<in>set ''a/b''. \<not> is_space c) \<and> (rest = [] \<or> is_space (hd rest))
        \<and> (\<forall>pre' c rest'. ''attachment; filename=a/b'' = pre' @ ''filename='' @ c # rest'
            \<and> \<not> is_space c \<longrightarrow> length pre \<le> length pre')
        \<and> CHR ''/'' \<in> set ''a/b''"
      using d slash by (elim conjE) (intro conjI)
  qed
  note thm2 = filename_from_content_disposition_token
    [where cd = "''attachment; filename=report.tar.gz''" and fn = "''report.tar.gz''"
       and pre = "[]" and tok = "[]" and rest = "[]"]
  have r: "filename_from_content_disposition ''attachment; filename=report.tar.gz''
      = Some ''report.tar.gz''"
    using thm2 by (elim conjE)
  have iff2: "filename_from_content_disposition ''attachment; filename=report.tar.gz''
        = Some ''report.tar.gz'' \<longleftrightarrow>
      (\<exists>pre dots rest.
         ''attachment; filename=report.tar.gz'' = pre @ ''filename='' @ dots @ ''report.tar.gz'' @ rest
         \<and> (\<forall>c\<in>set dots. c = CHR ''.'') \<and> ''report.tar.gz'' \<noteq> []
         \<and> hd ''report.tar.gz'' \<noteq> CHR ''.''
         \<and> (\<forall>c\<in>set ''report.tar.gz''. is_name_char c) \<and> (rest = [] \<or> is_space (hd rest))
         \<and> (\<forall>pre' c rest'. ''attachment; filename=report.tar.gz'' = pre' @ ''filename='' @ c # rest'
               \<and> \<not> is_space c \<longrightarrow> length pre \<le> length pre'))"
    using thm2 by (elim conjE)
  from iff2 r have "\<exists>pre dots rest.
         ''attachment; filename=report.tar.gz'' = pre @ ''filename='' @ dots @ ''report.tar.gz'' @ rest
         \<and> (\<forall>c\<in>set dots. c = CHR ''.'') \<and> ''report.tar.gz'' \<noteq> []
         \<and> hd ''report.tar.gz'' \<noteq> CHR ''.''
         \<and> (\<forall>c\<in>set ''report.tar.gz''. is_name_char c) \<and> (rest = [] \<or> is_space (hd rest))
         \<and> (\<forall>pre' c rest'. ''attachment; filename=report.tar.gz'' = pre' @ ''filename='' @ c # rest'
               \<and> \<not> is_space c \<longrightarrow> length pre \<le> length pre')"
    by (rule iffD1)
  then obtain p2 d2 r2 where
    "''attachment; filename=report.tar.gz'' = p2 @ ''filename='' @ d2 @ ''report.tar.gz'' @ r2"
    "\<forall>c\<in>set d2. c = CHR ''.''" "r2 = [] \<or> is_space (hd r2)"
    by (elim exE conjE)
  then have 2: "\<exists>pre dots rest.
         ''attachment; filename=report.tar.gz'' = pre @ ''filename='' @ dots @ ''report.tar.gz'' @ rest
         \<and> (\<forall>c\<in>set dots. c = CHR ''.'') \<and> (rest = [] \<or> is_space (hd rest))"
    by (intro exI conjI)
  show ?thesis
    using 1 2 by (rule conjI)
qed

text \<open>
  C8 as stated fails on its own example and on names with a space: the quoted
  \<open>".secret"\<close> gives nothing, not \<open>secret\<close>, and \<open>my file.txt\<close> gives \<open>my\<close>, not nothing.
\<close>

theorem filename_from_content_disposition_quoted_counterexample:
  "filename_from_content_disposition
     (''attachment; filename='' @ [CHR 0x22] @ ''.secret'' @ [CHR 0x22]) = None
   \<and> filename_from_content_disposition ''attachment; filename=my file.txt'' = Some ''my''"
  by (simp add: filename_from_content_disposition_def lstrip_dots_def match_name_def
      is_space_def is_name_char_def at_dollar_def)

section \<open>Properties of Download\<close>

lemma interrupted_returns:
  assumes "self_output_file self = Some f"
  shows "\<exists>v. interrupted self = Inr v
           \<and> (truth v \<longleftrightarrow>
                closed f \<and> (\<exists>n. total_size (self_progress self) = Some n \<and> n \<noteq> 0
                               \<and> downloaded (self_progress self) \<noteq> n))"
proof (cases "total_size (self_progress self)")
  case None
  then show ?thesis
    using assms by (simp add: interrupted_def)
next
  case (Some n)
  have "(n = downloaded (self_progress self)) = (downloaded (self_progress self) = n)"
    by (rule eq_commute)
  then show ?thesis
    using assms Some by (simp add: interrupted_def)
qed

text \<open>
  C2, as the code has it. For a download with an output file, \<open>interrupted\<close> returns, and
  its value is true if and only if the file is closed, the total size is known and not
  zero, and \<open>downloaded\<close> differs from it: \<open>and self._progress.total_size\<close> is false on
  \<open>None\<close> and on \<open>0\<close> alike. So the value is false whenever the total size is unknown, and
  whenever it is zero.
\<close>

theorem interrupted_iff_closed_and_nonzero_total_differs:
  assumes "self_output_file self = Some f"
  shows "\<exists>v. interrupted self = Inr v
           \<and> (truth v \<longleftrightarrow>
                closed f \<and> (\<exists>n. total_size (self_progress self) = Some n \<and> n \<noteq> 0
                               \<and> downloaded (self_progress self) \<noteq> n))
           \<and> (total_size (self_progress self) = None \<longrightarrow> \<not> truth v)
           \<and> (total_size (self_progress self) = Some 0 \<longrightarrow> \<not> truth v)"
proof -
  from interrupted_returns [OF assms] obtain v where
    v: "interrupted self = Inr v"
       "truth v \<longleftrightarrow> closed f \<and> (\<exists>n. total_size (self_progress self) = Some n \<and> n \<noteq> 0
                               \<and> downloaded (self_progress self) \<noteq> n)"
    by blast
  have a: "total_size (self_progress self) = None \<longrightarrow> \<not> truth v"
    using v(2) by simp
  have b: "total_size (self_progress self) = Some 0 \<longrightarrow> \<not> truth v"
    using v(2) by simp
  show ?thesis
    by (rule exI [of _ v]) (intro conjI v a b)
qed

text \<open>
  The two runs of the specification, on a response with \<open>Content-Length: 1000\<close> and no
  resuming: after chunks of 400 and 600 bytes \<open>interrupted\<close> is false, after the first
  chunk alone it is true.
\<close>

theorem interrupted_iff_closed_and_nonzero_total_differs_witness:
  "(\<exists>d v. run_download 1 [''out.bin'' \<mapsto> 0] False (example_response 200 ''1000'')
             [replicate 400 (CHR ''x'')] = Some d
          \<and> interrupted d = Inr v \<and> truth v)
   \<and> (\<exists>d v. run_download 1 [''out.bin'' \<mapsto> 0] False (example_response 200 ''1000'')
             [replicate 400 (CHR ''x''), replicate 600 (CHR ''x'')] = Some d
          \<and> interrupted d = Inr v \<and> \<not> truth v)"
proof -
  let ?f = "\<lparr>name = ''out.bin'', closed = True, seekable = True\<rparr>"
  let ?view = "\<lambda>d. (self_output_file d, total_size (self_progress d), downloaded (self_progress d))"
  let ?run = "run_download 1 [''out.bin'' \<mapsto> 0] False (example_response 200 ''1000'')"
  have "map_option ?view (?run [replicate 400 (CHR ''x'')]) = Some (Some ?f, Some 1000, 400)"
    by code_simp
  then obtain d1 where d1: "?run [replicate 400 (CHR ''x'')] = Some d1"
      "self_output_file d1 = Some ?f" "total_size (self_progress d1) = Some 1000"
      "downloaded (self_progress d1) = 400"
    by (cases "?run [replicate 400 (CHR ''x'')]") auto
  from interrupted_iff_closed_and_nonzero_total_differs [OF d1(2)] obtain v1 where
    v1: "interrupted d1 = Inr v1"
        "truth v1 \<longleftrightarrow> closed ?f \<and> (\<exists>n. total_size (self_progress d1) = Some n \<and> n \<noteq> 0
                               \<and> downloaded (self_progress d1) \<noteq> n)"
    by blast
  have t1: "truth v1"
    using v1(2) d1(3,4) by simp
  have "map_option ?view (?run [replicate 400 (CHR ''x''), replicate 600 (CHR ''x'')])
      = Some (Some ?f, Some 1000, 1000)"
    by code_simp
  then obtain d2 where d2: "?run [replicate 400 (CHR ''x''), replicate 600 (CHR ''x'')] = Some d2"
      "self_output_file d2 = Some ?f" "total_size (self_progress d2) = Some 1000"
      "downloaded (self_progress d2) = 1000"
    by (cases "?run [replicate 400 (CHR ''x''), replicate 600 (CHR ''x'')]") auto
  from interrupted_iff_closed_and_nonzero_total_differs [OF d2(2)] obtain v2 where
    v2: "interrupted d2 = Inr v2"
        "truth v2 \<longleftrightarrow> closed ?f \<and> (\<exists>n. total_size (self_progress d2) = Some n \<and> n \<noteq> 0
                               \<and> downloaded (self_progress d2) \<noteq> n)"
    by blast
  have t2: "\<not> truth v2"
    using v2(2) d2(3,4) by simp
  show ?thesis
    using d1(1) v1(1) t1 d2(1) v2(1) t2 by blast
qed

text \<open>
  C2 as stated fails for a known total size of zero. A download resumed from a file of 5
  bytes, answered with status 206, \<open>Content-Length: 0\<close> and no \<open>Content-Range\<close>, and then
  finished, has a closed file, the known total size 0 and \<open>downloaded = 5\<close>, which differ;
  yet \<open>interrupted\<close> is \<open>0\<close>, which is false.
\<close>

theorem interrupted_zero_total_counterexample:
  "map_option (map_option closed \<circ> self_output_file)
     (run_download 1 [''out.bin'' \<mapsto> 5] True (example_response 206 ''0'') []) = Some (Some True)
   \<and> map_option (total_size \<circ> self_progress)
     (run_download 1 [''out.bin'' \<mapsto> 5] True (example_response 206 ''0'') []) = Some (Some 0)
   \<and> map_option (downloaded \<circ> self_progress)
     (run_download 1 [''out.bin'' \<mapsto> 5] True (example_response 206 ''0'') []) = Some 5
   \<and> map_option interrupted
     (run_download 1 [''out.bin'' \<mapsto> 5] True (example_response 206 ''0'') []) = Some (Inr (PyInt 0))
   \<and> truth (PyInt 0) = False"
  by code_simp

lemma pre_request_without_resume:
  assumes "\<not> self_resume self"
  shows "pre_request disk' self h = (None, self, h(''Accept-Encoding'' \<mapsto> None))"
  using assms by (simp add: pre_request_def)

text \<open>
  C10, as the code has it. When the download was built with \<open>resume=True\<close>,
  \<open>pre_request\<close> reads \<open>self._output_file.name\<close> and asks the disk for the size of that
  path, whatever the object is. It returns exactly when a file object was supplied and
  its name is a path on the disk: without a file object it raises \<open>AttributeError\<close>, and
  with one whose name is not on the disk \<open>os.path.getsize\<close> raises \<open>OSError\<close>. When it
  returns, with \<open>n\<close> the size on disk, it has set \<open>Range: bytes=n-\<close> and recorded \<open>n\<close> as
  the resume offset exactly when \<open>n\<close> is not zero. In every case \<open>Accept-Encoding\<close> has
  been set to \<open>None\<close>.
\<close>

theorem pre_request_resume_returns_iff:
  assumes "self_resume self"
  shows "(self_output_file self = None \<longrightarrow>
            pre_request disk' self h = (Some AttributeError, self, h(''Accept-Encoding'' \<mapsto> None)))
       \<and> (fst (pre_request disk' self h) = None \<longleftrightarrow>
            (\<exists>f n. self_output_file self = Some f \<and> disk' (name f) = Some n))
       \<and> (\<forall>f. self_output_file self = Some f \<and> disk' (name f) = None \<longrightarrow>
             pre_request disk' self h = (Some OSError, self, h(''Accept-Encoding'' \<mapsto> None)))
       \<and> (\<forall>f n. self_output_file self = Some f \<and> disk' (name f) = Some n \<longrightarrow>
             pre_request disk' self h =
               (if n = 0 then (None, self, h(''Accept-Encoding'' \<mapsto> None))
                else (None, self\<lparr>self_resumed_from := int n\<rparr>,
                      h(''Accept-Encoding'' \<mapsto> None,
                        ''Range'' \<mapsto> Some (''bytes='' @ str_nat n @ ''-'')))))"
proof -
  have none: "pre_request disk' self h = (Some AttributeError, self, h(''Accept-Encoding'' \<mapsto> None))"
    if "self_output_file self = None"
    using that assms by (simp add: pre_request_def)
  have missing: "pre_request disk' self h = (Some OSError, self, h(''Accept-Encoding'' \<mapsto> None))"
    if "self_output_file self = Some f" "disk' (name f) = None" for f
    using that assms by (simp add: pre_request_def)
  have present: "pre_request disk' self h =
               (if n = 0 then (None, self, h(''Accept-Encoding'' \<mapsto> None))
                else (None, self\<lparr>self_resumed_from := int n\<rparr>,
                      h(''Accept-Encoding'' \<mapsto> None,
                        ''Range'' \<mapsto> Some (''bytes='' @ str_nat n @ ''-''))))"
    if "self_output_file self = Some f" "disk' (name f) = Some n" for f n
    using that assms by (simp add: pre_request_def)
  have iff: "fst (pre_request disk' self h) = None \<longleftrightarrow>
            (\<exists>f n. self_output_file self = Some f \<and> disk' (name f) = Some n)"
  proof (cases "self_output_file self")
    case None
    then show ?thesis
      using none by simp
  next
    case (Some f)
    show ?thesis
    proof (cases "disk' (name f)")
      case None
      then show ?thesis
        using Some missing [OF Some None] by simp
    next
      case (Some n)
      then show ?thesis
        using \<open>self_output_file self = Some f\<close> present [OF \<open>self_output_file self = Some f\<close> Some]
        by simp
    qed
  qed
  have 1: "self_output_file self = None \<longrightarrow>
            pre_request disk' self h = (Some AttributeError, self, h(''Accept-Encoding'' \<mapsto> None))"
    using none by (rule impI)
  have 3: "\<forall>f. self_output_file self = Some f \<and> disk' (name f) = None \<longrightarrow>
             pre_request disk' self h = (Some OSError, self, h(''Accept-Encoding'' \<mapsto> None))"
    using missing by (intro allI impI) (elim conjE)
  have 4: "\<forall>f n. self_output_file self = Some f \<and> disk' (name f) = Some n \<longrightarrow>
             pre_request disk' self h =
               (if n = 0 then (None, self, h(''Accept-Encoding'' \<mapsto> None))
                else (None, self\<lparr>self_resumed_from := int n\<rparr>,
                      h(''Accept-Encoding'' \<mapsto> None,
                        ''Range'' \<mapsto> Some (''bytes='' @ str_nat n @ ''-''))))"
    using present by (intro allI impI) (elim conjE)
  show ?thesis
    by (intro conjI 1 iff 3 4)
qed

theorem pre_request_resume_returns_iff_witness:
  "pre_request [''out.bin'' \<mapsto> 5] (Download_init 0 None True []) Map.empty
     = (Some AttributeError, Download_init 0 None True [], [''Accept-Encoding'' \<mapsto> None])
   \<and> pre_request [''out.bin'' \<mapsto> 5] (Download_init 0 (Some example_file) True []) Map.empty
     = (None, (Download_init 0 (Some example_file) True [])\<lparr>self_resumed_from := 5\<rparr>,
        [''Accept-Encoding'' \<mapsto> None, ''Range'' \<mapsto> Some ''bytes=5-''])
   \<and> pre_request [''out.bin'' \<mapsto> 0] (Download_init 0 (Some example_file) True []) Map.empty
     = (None, Download_init 0 (Some example_file) True [], [''Accept-Encoding'' \<mapsto> None])
   \<and> pre_request Map.empty (Download_init 0 (Some example_file) True []) Map.empty
     = (Some OSError, Download_init 0 (Some example_file) True [], [''Accept-Encoding'' \<mapsto> None])"
proof -
  let ?d = "Download_init 0 (Some example_file) True []"
  have r: "self_resume (Download_init 0 None True [])" "self_resume ?d"
    by (simp_all add: Download_init_def)
  have n: "self_output_file (Download_init 0 None True []) = None"
    by (simp add: Download_init_def)
  have f5: "self_output_file ?d = Some example_file
      \<and> [''out.bin'' \<mapsto> 5::nat] (name example_file) = Some 5"
    by (simp add: Download_init_def example_file_def)
  have f0: "self_output_file ?d = Some example_file
      \<and> [''out.bin'' \<mapsto> 0::nat] (name example_file) = Some 0"
    by (simp add: Download_init_def example_file_def)
  have fm: "self_output_file ?d = Some example_file
      \<and> (Map.empty :: disk) (name example_file) = None"
    by (simp add: Download_init_def)
  have s5: "str_nat 5 = ''5''"
    by (simp add: str_nat.simps digit_char_def)
  note a = pre_request_resume_returns_iff [OF r(1), of "[''out.bin'' \<mapsto> 5]" Map.empty]
  note b = pre_request_resume_returns_iff [OF r(2), of "[''out.bin'' \<mapsto> 5]" Map.empty]
  note c = pre_request_resume_returns_iff [OF r(2), of "[''out.bin'' \<mapsto> 0]" Map.empty]
  note m = pre_request_resume_returns_iff [OF r(2), of Map.empty Map.empty]
  have 1: "pre_request [''out.bin'' \<mapsto> 5] (Download_init 0 None True []) Map.empty
     = (Some AttributeError, Download_init 0 None True [], [''Accept-Encoding'' \<mapsto> None])"
    using a n by blast
  have "pre_request [''out.bin'' \<mapsto> 5] ?d Map.empty =
               (if (5::nat) = 0 then (None, ?d, [''Accept-Encoding'' \<mapsto> None])
                else (None, ?d\<lparr>self_resumed_from := int 5\<rparr>,
                      [''Accept-Encoding'' \<mapsto> None,
                        ''Range'' \<mapsto> Some (''bytes='' @ str_nat 5 @ ''-'')]))"
    using b f5 by blast
  then have 2: "pre_request [''out.bin'' \<mapsto> 5] ?d Map.empty
     = (None, ?d\<lparr>self_resumed_from := 5\<rparr>,
        [''Accept-Encoding'' \<mapsto> None, ''Range'' \<mapsto> Some ''bytes=5-''])"
    using s5 by simp
  have "pre_request [''out.bin'' \<mapsto> 0] ?d Map.empty =
               (if (0::nat) = 0 then (None, ?d, [''Accept-Encoding'' \<mapsto> None])
                else (None, ?d\<lparr>self_resumed_from := int 0\<rparr>,
                      [''Accept-Encoding'' \<mapsto> None,
                        ''Range'' \<mapsto> Some (''bytes='' @ str_nat 0 @ ''-'')]))"
    using c f0 by blast
  then have 3: "pre_request [''out.bin'' \<mapsto> 0] ?d Map.empty
     = (None, ?d, [''Accept-Encoding'' \<mapsto> None])"
    by simp
  have 4: "pre_request Map.empty ?d Map.empty
     = (Some OSError, ?d, [''Accept-Encoding'' \<mapsto> None])"
    using m fm by blast
  show ?thesis
    using 1 2 3 4 by (intro conjI)
qed

text \<open>
  C10 as stated fails for a file object whose name is not a path on the disk (a deleted
  file, or a stream such as the standard output): the object was supplied, and
  \<open>pre_request\<close> raises \<open>OSError\<close> all the same.
\<close>

theorem pre_request_file_not_on_disk_counterexample:
  "self_resume (Download_init 0 (Some example_file) True [])
   \<and> self_output_file (Download_init 0 (Some example_file) True []) = Some example_file
   \<and> fst (pre_request Map.empty (Download_init 0 (Some example_file) True []) Map.empty)
     = Some OSError"
  by (simp add: pre_request_def Download_init_def)

section \<open>Properties of ProgressReporter\<close>

lemma sum_up_reports:
  assumes "time_started p = Some ts" and "time_finished p = Some tf" and "tf \<noteq> ts"
    and "(case total_size p of None \<Rightarrow> humanize_bytes_None X
          | Some n \<Rightarrow> Inr (humanize_bytes X (PInt n))) = Inr total'"
  shows "sum_up X p rep =
     (None,
      rep\<lparr>output := output rep @
         [CLEAR_LINE,
          format_summary X (humanize_bytes X (PInt (downloaded p - resumed_from p))) total'
            (humanize_bytes X (PFloat (of_int (downloaded p - resumed_from p) / (tf - ts))))
            (tf - ts)]\<rparr>)"
  using assms by (simp add: sum_up_def Let_def)

text \<open>
  C5. The summary of every finished \<open>Progress\<close> reports \<open>downloaded - resumed_from\<close>
  bytes, the elapsed time \<open>time_finished - time_started\<close> and their quotient as the speed.
  The code does so only when the two clock readings differ (see \<open>sum_up_reports\<close>). When
  they are equal, the division is by zero and \<open>sum_up\<close> raises instead of reporting:
  \<open>ZeroDivisionError\<close> when the total size is known, after the clear-line sequence has
  been written and before any summary is. Nothing in \<open>sum_up\<close> catches it, where
  \<open>report_speed\<close> catches the same error.
\<close>

theorem sum_up_no_elapsed_time:
  assumes "time_started p = Some t" and "time_finished p = Some t" and "total_size p = Some n"
  shows "sum_up X p rep = (Some ZeroDivisionError, rep\<lparr>output := output rep @ [CLEAR_LINE]\<rparr>)"
  using assms by (simp add: sum_up_def Let_def)

theorem sum_up_no_elapsed_time_witness:
  "sum_up plain_externals
     (Progress_init\<lparr>downloaded := 1100, total_size := Some 1100, resumed_from := 100,
        time_started := Some 5, time_finished := Some 5\<rparr>)
     (ProgressReporter_init 0 [] (1 / 10) 1)
   = (Some ZeroDivisionError, (ProgressReporter_init 0 [] (1 / 10) 1)\<lparr>output := [CLEAR_LINE]\<rparr>)"
  using sum_up_no_elapsed_time
    [of "Progress_init\<lparr>downloaded := 1100, total_size := Some 1100, resumed_from := 100,
        time_started := Some 5, time_finished := Some 5\<rparr>" 5 1100 plain_externals
        "ProgressReporter_init 0 [] (1 / 10) 1"]
  by (simp add: ProgressReporter_init_def)

text \<open>The example of the specification: 1000 bytes in 10 seconds at 100 bytes a second.\<close>

lemma sum_up_example:
  "sum_up plain_externals
     (Progress_init\<lparr>downloaded := 1100, total_size := Some 1100, resumed_from := 100,
        time_started := Some 5, time_finished := Some 15\<rparr>)
     (ProgressReporter_init 0 [] (1 / 10) 1)
   = (None, (ProgressReporter_init 0 [] (1 / 10) 1)
        \<lparr>output := [CLEAR_LINE, ''Done. 1000 B of 1100 B in 10s (100 B/s)'' @ [CHR 0x0A]]\<rparr>)"
  by code_simp

text \<open>
  C6. With an unknown total size a wake that recomputes the status line renders
  \<open>downloaded\<close>, speed and ETA without percentage and total. The code chooses that
  template, but never fills it once time has passed since the last sample: the \<open>try\<close>
  computes \<open>self.progress.total_size - downloaded\<close>, which is \<open>None - int\<close> and raises
  \<open>TypeError\<close>; only \<open>ZeroDivisionError\<close> is caught. The call raises and leaves the
  reporter as it was, nothing written, whether bytes have arrived or not.
\<close>

theorem report_speed_unknown_total_size:
  assumes "total_size p = None"
    and "update_interval rep \<le> now - prev_time rep"
    and "now \<noteq> prev_time rep"
  shows "report_speed X now p rep = (Some TypeError, rep)"
  using assms
  by (simp add: report_speed_def recompute_status_def speed_and_eta_guarded_def
      speed_and_eta_def Let_def)

theorem report_speed_unknown_total_size_witness:
  "report_speed plain_externals 1 (Progress_init\<lparr>downloaded := 8192, time_started := Some 0\<rparr>)
     (ProgressReporter_init 0 [] (1 / 10) 1)
   = (Some TypeError, ProgressReporter_init 0 [] (1 / 10) 1)
   \<and> map_option fst
       (start plain_externals 1 1 [''out.bin'' \<mapsto> 0] (Download_init 0 (Some example_file) False [])
          \<lparr>headers = Map.empty, status_code = 200, url = ''http://x/y''\<rparr>)
     = Some (Inl TypeError)"
proof -
  have "report_speed plain_externals 1 (Progress_init\<lparr>downloaded := 8192, time_started := Some 0\<rparr>)
     (ProgressReporter_init 0 [] (1 / 10) 1)
   = (Some TypeError, ProgressReporter_init 0 [] (1 / 10) 1)"
    using report_speed_unknown_total_size
      [of "Progress_init\<lparr>downloaded := 8192, time_started := Some 0\<rparr>"
          "ProgressReporter_init 0 [] (1 / 10) 1" 1 plain_externals]
    by (simp add: Progress_init_def ProgressReporter_init_def)
  moreover have "map_option fst
       (start plain_externals 1 1 [''out.bin'' \<mapsto> 0] (Download_init 0 (Some example_file) False [])
          \<lparr>headers = Map.empty, status_code = 200, url = ''http://x/y''\<rparr>)
     = Some (Inl TypeError)"
    by code_simp
  ultimately show ?thesis
    by (rule conjI)
qed

lemma report_speed_catches_zero_division:
  assumes "update_interval rep \<le> now - prev_time rep"
    and "spinner_pos rep < length SPINNER"
    and "speed_and_eta X now p rep = Inl ZeroDivisionError"
  shows "report_speed X now p rep =
     (let line =
            (case total_size p of
               None \<Rightarrow>
                 humanize_bytes X (PInt (downloaded p)) @ '' ('' @ humanize_bytes X (PInt 0)
                 @ ''/s) ETA ?''
             | Some n \<Rightarrow>
                 if n = 0
                 then humanize_bytes X (PInt (downloaded p)) @ '' ('' @ humanize_bytes X (PInt 0)
                      @ ''/s) ETA ?''
                 else format_float X '' 6.2f'' (of_int (downloaded p) / of_int n * 100) @ ''% (''
                      @ humanize_bytes X (PInt (downloaded p)) @ '') of '' @ total_size_humanized p
                      @ '' ('' @ humanize_bytes X (PInt 0) @ ''/s) ETA ?'')
      in (None,
          rep\<lparr>status_line := line, prev_time := now, prev_bytes := downloaded p,
              output := output rep @ [CLEAR_LINE @ [SPINNER ! spinner_pos rep] @ '' '' @ line],
              spinner_pos := (if spinner_pos rep + 1 = length SPINNER then 0
                              else spinner_pos rep + 1)\<rparr>))"
proof (cases "total_size p")
  case None
  then show ?thesis
    using assms
    by (simp add: report_speed_def recompute_status_def speed_and_eta_guarded_def
        format_status_def write_status_def Let_def)
next
  case (Some n)
  then show ?thesis
    using assms
    by (simp add: report_speed_def recompute_status_def speed_and_eta_guarded_def
        format_status_def write_status_def Let_def)
qed

lemma recompute_status_spinner_pos:
  assumes "recompute_status X now p rep = Inr rep'"
  shows "spinner_pos rep' = spinner_pos rep"
  using assms
  by (auto simp: recompute_status_def Let_def split: sum.splits prod.splits option.splits
      if_splits)

lemma write_status_spinner_pos:
  assumes "spinner_pos rep < length SPINNER"
  shows "fst (write_status rep) = None \<and> spinner_pos (snd (write_status rep)) < length SPINNER"
  using assms by (simp add: write_status_def SPINNER_def)

lemma report_speed_spinner_pos:
  assumes "spinner_pos rep < length SPINNER"
  shows "spinner_pos (snd (report_speed X now p rep)) < length SPINNER"
proof (cases "update_interval rep \<le> now - prev_time rep")
  case False
  then show ?thesis
    using write_status_spinner_pos [OF assms] by (simp add: report_speed_def)
next
  case True
  show ?thesis
  proof (cases "recompute_status X now p rep")
    case (Inl e)
    then show ?thesis
      using True assms by (simp add: report_speed_def)
  next
    case (Inr rep')
    then have "spinner_pos rep' < length SPINNER"
      using recompute_status_spinner_pos [OF Inr] assms by simp
    then show ?thesis
      using True Inr write_status_spinner_pos [of rep'] by (simp add: report_speed_def)
  qed
qed

text \<open>
  C7. On every wake, when the computed speed is zero, the status line is written with
  the speed 0 and the ETA \<open>?\<close>. The code does not do this when the total size is unknown:
  on a wake that recomputes the line after time has passed, with no byte arrived since
  the previous sample, the speed is computed as zero, and the next step of the \<open>try\<close>,
  \<open>self.progress.total_size - downloaded\<close>, is \<open>None - int\<close> and raises \<open>TypeError\<close> before
  the division by the speed is reached. The handler names \<open>ZeroDivisionError\<close> only, so
  \<open>report_speed\<close> raises, writes nothing and leaves the reporter as it was. (Where the
  \<open>try\<close> does raise \<open>ZeroDivisionError\<close>, the line is written as the claim says:
  \<open>report_speed_catches_zero_division\<close>.)
\<close>

theorem report_speed_zero_speed_unknown_total_size:
  assumes "total_size p = None"
    and "downloaded p = prev_bytes rep"
    and "update_interval rep \<le> now - prev_time rep"
    and "now \<noteq> prev_time rep"
  shows "of_int (downloaded p - prev_bytes rep) / (now - prev_time rep) = (0::rat)
       \<and> speed_and_eta X now p rep = Inl TypeError
       \<and> report_speed X now p rep = (Some TypeError, rep)"
proof (intro conjI)
  show "of_int (downloaded p - prev_bytes rep) / (now - prev_time rep) = (0::rat)"
    using assms(2) by simp
  show e: "speed_and_eta X now p rep = Inl TypeError"
    using assms(1,4) by (simp add: speed_and_eta_def Let_def)
  show "report_speed X now p rep = (Some TypeError, rep)"
    using assms(3) e
    by (simp add: report_speed_def recompute_status_def speed_and_eta_guarded_def Let_def
        split: option.splits)
qed

text \<open>
  A download without \<open>Content-Length\<close>, one second after the reporter was built, before
  the first byte.
\<close>

theorem report_speed_zero_speed_unknown_total_size_witness:
  "report_speed plain_externals 1 (Progress_init\<lparr>time_started := Some 0\<rparr>)
     (ProgressReporter_init 0 [] (1 / 10) 1)
   = (Some TypeError, ProgressReporter_init 0 [] (1 / 10) 1)"
proof -
  let ?p = "Progress_init\<lparr>time_started := Some 0\<rparr>"
  let ?r = "ProgressReporter_init 0 [] (1 / 10) 1"
  have h: "total_size ?p = None" "downloaded ?p = prev_bytes ?r"
      "update_interval ?r \<le> 1 - prev_time ?r" "1 \<noteq> prev_time ?r"
    by (simp_all add: Progress_init_def ProgressReporter_init_def)
  show ?thesis
    using report_speed_zero_speed_unknown_total_size [OF h, of plain_externals]
    by (elim conjE)
qed

section \<open>Contract violations\<close>

lemma call_time_started:
  assumes "call X q c = Inr p"
  shows "time_started p \<noteq> None \<longleftrightarrow> time_started q \<noteq> None \<or> is_started_call c"
  using assms
  by (cases c)
    (auto simp: started_def chunk_downloaded_def finished_def Let_def
      split: if_splits option.splits)

lemma call_time_finished:
  assumes "call X q c = Inr p"
  shows "time_finished p \<noteq> None \<longleftrightarrow> time_finished q \<noteq> None \<or> is_finished_call c"
  using assms
  by (cases c)
    (auto simp: started_def chunk_downloaded_def finished_def Let_def
      split: if_splits option.splits)

lemma calls_time_started:
  assumes "calls X q cs = Inr p"
  shows "time_started p \<noteq> None \<longleftrightarrow> time_started q \<noteq> None \<or> (\<exists>c\<in>set cs. is_started_call c)"
  using assms
proof (induction cs arbitrary: q)
  case Nil
  then show ?case by simp
next
  case (Cons c cs)
  then obtain q' where q': "call X q c = Inr q'" "calls X q' cs = Inr p"
    by (cases "call X q c") simp_all
  show ?case
    using Cons.IH [OF q'(2)] call_time_started [OF q'(1)] by auto
qed

lemma calls_time_finished:
  assumes "calls X q cs = Inr p"
  shows "time_finished p \<noteq> None \<longleftrightarrow> time_finished q \<noteq> None \<or> (\<exists>c\<in>set cs. is_finished_call c)"
  using assms
proof (induction cs arbitrary: q)
  case Nil
  then show ?case by simp
next
  case (Cons c cs)
  then obtain q' where q': "call X q c = Inr q'" "calls X q' cs = Inr p"
    by (cases "call X q c") simp_all
  show ?case
    using Cons.IH [OF q'(2)] call_time_finished [OF q'(1)] by auto
qed

lemma start_guard:
  assumes "time_started (self_progress d) = Some t0" and "t0 \<noteq> 0"
  shows "start X now1 now2 disk' d response' = Some (Inl AssertionError, d, disk')"
  using assms by (simp add: start_def not_time_def)

text \<open>
  What the guards do. After any sequence of calls on a fresh \<open>Progress\<close> object that have
  all returned: \<open>started\<close> raises \<open>AssertionError\<close> if \<open>started\<close> was called before;
  \<open>finished\<close> raises it if \<open>started\<close> was not called before, and if \<open>finished\<close> was;
  \<open>chunk_downloaded\<close> raises it if \<open>finished\<close> was called before. In each case the failing
  \<open>assert\<close> is the first statement, so the object is as it was. \<open>Download.start\<close> raises
  \<open>AssertionError\<close> with the download and the disk as they were when
  \<open>Progress.time_started\<close> holds a clock reading other than zero.
\<close>

lemma contract_violations_raise_AssertionError:
  assumes "calls X Progress_init cs = Inr p"
  shows "((\<exists>c\<in>set cs. is_started_call c) \<longrightarrow> started X now p r t = Inl AssertionError)
       \<and> ((\<forall>c\<in>set cs. \<not> is_started_call c) \<longrightarrow> finished now p = Inl AssertionError)
       \<and> ((\<exists>c\<in>set cs. is_finished_call c) \<longrightarrow>
            finished now p = Inl AssertionError \<and> chunk_downloaded p n = Inl AssertionError)
       \<and> (\<forall>t0. time_started (self_progress d) = Some t0 \<and> t0 \<noteq> 0 \<longrightarrow>
            start X now1 now2 disk' d response' = Some (Inl AssertionError, d, disk'))"
proof -
  have init: "time_started Progress_init = None" "time_finished Progress_init = None"
    by (simp_all add: Progress_init_def)
  have s: "time_started p \<noteq> None \<longleftrightarrow> (\<exists>c\<in>set cs. is_started_call c)"
    using calls_time_started [OF assms] init(1) by simp
  have f: "time_finished p \<noteq> None \<longleftrightarrow> (\<exists>c\<in>set cs. is_finished_call c)"
    using calls_time_finished [OF assms] init(2) by simp
  have 1: "(\<exists>c\<in>set cs. is_started_call c) \<longrightarrow> started X now p r t = Inl AssertionError"
    using s by (auto simp: started_def)
  have 2: "(\<forall>c\<in>set cs. \<not> is_started_call c) \<longrightarrow> finished now p = Inl AssertionError"
    using s by (auto simp: finished_def)
  have 3: "(\<exists>c\<in>set cs. is_finished_call c) \<longrightarrow>
      finished now p = Inl AssertionError \<and> chunk_downloaded p n = Inl AssertionError"
    using f by (auto simp: finished_def chunk_downloaded_def)
  have 4: "\<forall>t0. time_started (self_progress d) = Some t0 \<and> t0 \<noteq> 0 \<longrightarrow>
      start X now1 now2 disk' d response' = Some (Inl AssertionError, d, disk')"
    by (auto intro: start_guard)
  show ?thesis
    by (intro conjI 1 2 3 4)
qed

text \<open>
  A second \<open>start\<close> on a download whose first \<open>start\<close> read the clock at zero: it empties
  the output file, which held 400 bytes, before \<open>Progress.started\<close> raises
  \<open>AssertionError\<close>; and on a resumed download answered with status 206 and a
  \<open>Content-Range\<close> that starts elsewhere it raises \<open>ContentRangeError\<close>, no assertion at all.
\<close>

lemma start_again_at_clock_zero:
  "map_option (time_started \<circ> self_progress) (started_download 0 False) = Some (Some 0)
   \<and> map_option fst (start_again 0 False [''out.bin'' \<mapsto> 400] (example_response 200 ''1000''))
     = Some (Inl AssertionError)
   \<and> file_size_after
       (start_again 0 False [''out.bin'' \<mapsto> 400] (example_response 200 ''1000'')) ''out.bin''
     = Some 0
   \<and> map_option fst
       (start_again 0 True [''out.bin'' \<mapsto> 400]
          \<lparr>headers = [''Content-Range'' \<mapsto> ''bytes 5-9/10''], status_code = 206,
           url = ''http://x/y''\<rparr>)
     = Some (Inl (ContentRangeError Unexpected_returned))"
  by code_simp



end
